theory Spec2Isabelle
  imports Main "HOL-Library.Sublist"
begin

section \<open>Text, numbers and the builtins of the host language\<close>

text \<open>
  The program is Python.  A \<open>str\<close> is a sequence of Unicode code points, and \<open>len\<close>,
  slicing and the range test of the token estimator all count code points, so a text
  is a list of code points here (a \<open>char\<close> of HOL is a byte).  ASCII literals are
  written with \<open>ustr\<close>; the CJK literals of the source are given by their code points.
\<close>

type_synonym ustring = "nat list"

definition ustr :: "string \<Rightarrow> ustring" where
  "ustr s = map of_char s"

text \<open>
  \<open>text.count(sub)\<close>: the number of non-overlapping occurrences of \<open>sub\<close>, scanning
  from the left; for the empty \<open>sub\<close> Python answers \<open>len(text) + 1\<close>.
\<close>

function count_str :: "ustring \<Rightarrow> ustring \<Rightarrow> nat" where
  "count_str text sub =
     (if sub = [] then length text + 1
      else if text = [] then 0
      else if prefix sub text then 1 + count_str (drop (length sub) text) sub
      else count_str (tl text) sub)"
  by pat_completeness auto
termination
  by (relation "measure (\<lambda>(text, sub). length text)") auto

declare count_str.simps [simp del]

text \<open>\<open>sub in text\<close> on strings is the test for a contiguous occurrence: \<^const>\<open>sublist\<close>.\<close>

text \<open>\<open>sep.join(parts)\<close>.\<close>

fun join :: "ustring \<Rightarrow> ustring list \<Rightarrow> ustring" where
  "join sep [] = []"
| "join sep [p] = p"
| "join sep (p # q # ps) = p @ sep @ join sep (q # ps)"

text \<open>\<open>str(n)\<close> for a natural number: its decimal digits.\<close>

fun str_nat :: "nat \<Rightarrow> ustring" where
  "str_nat n = (if n < 10 then [48 + n] else str_nat (n div 10) @ [48 + n mod 10])"

declare str_nat.simps [simp del]

subsection \<open>Double-precision arithmetic on integers\<close>

text \<open>
  The source multiplies integers by the float constants \<open>0.7\<close>, \<open>0.8\<close>, \<open>0.6\<close> and
  \<open>0.8 ** 2\<close>, divides a length by \<open>1.5\<close>, and truncates with \<open>int(...)\<close>.  These are IEEE 754
  binary64 operations and they do not agree with exact arithmetic: \<open>int(90 * 0.7)\<close> is
  \<open>62\<close>.  Each constant \<open>c\<close> in \<open>[0.5, 1)\<close> is the rational \<open>m / 2 ^ 53\<close> for the 53-bit
  integer \<open>m\<close> below; \<open>float_round\<close> rounds a natural number to 53 significant bits, ties
  to even, which is what the conversion of an \<open>int\<close> to a float and the rounding of a
  product do.  (Python raises OverflowError for integers of \<open>2 ^ 1024\<close> and more; no
  text or budget is that large, and that error is not modelled.)
\<close>

fun bit_length :: "nat \<Rightarrow> nat" where
  "bit_length n = (if n = 0 then 0 else Suc (bit_length (n div 2)))"

declare bit_length.simps [simp del]

definition round_half_even :: "nat \<Rightarrow> nat \<Rightarrow> nat" where
  "round_half_even p k =
     (let q = p div 2 ^ k; r = p mod 2 ^ k
      in if 2 ^ k < 2 * r \<or> (2 * r = 2 ^ k \<and> odd q) then q + 1 else q)"

definition float_round :: "nat \<Rightarrow> nat" where
  "float_round p = (let k = bit_length p - 53 in round_half_even p k * 2 ^ k)"

definition float_0_7 :: nat where "float_0_7 = 6305039478318694"
definition float_0_6 :: nat where "float_0_6 = 5404319552844595"
definition float_0_8 :: nat where "float_0_8 = 7205759403792794"
definition float_0_64 :: nat where "float_0_64 = 5764607523034236"

text \<open>The float \<open>n * c\<close> as a natural number of units of \<open>2 ^ -53\<close>, for \<open>n \<ge> 0\<close>.\<close>

definition float_mul :: "nat \<Rightarrow> nat \<Rightarrow> nat" where
  "float_mul n m = float_round (float_round n * m)"

text \<open>\<open>int(n * c)\<close>: truncation towards zero.\<close>

definition float_mul_trunc :: "int \<Rightarrow> nat \<Rightarrow> int" where
  "float_mul_trunc n m = sgn n * int (float_mul (nat \<bar>n\<bar>) m div 2 ^ 53)"

text \<open>\<open>a > x * c\<close>: Python compares an \<open>int\<close> with a float exactly.\<close>

definition gt_float_mul :: "int \<Rightarrow> int \<Rightarrow> nat \<Rightarrow> bool" where
  "gt_float_mul a x m \<longleftrightarrow> sgn x * int (float_mul (nat \<bar>x\<bar>) m) < a * 2 ^ 53"

text \<open>
  \<open>int(n / 1.5)\<close>: the quotient \<open>2n / 3\<close> correctly rounded.  The quotient is computed to 56
  binary places, with a last bit that records whether anything was cut off, so that
  rounding sees a tie only where there is one.
\<close>

definition float_div_1_5_trunc :: "nat \<Rightarrow> nat" where
  "float_div_1_5_trunc n =
     (let x = float_round n;
          q = 2 * ((x * 2 ^ 56) div 3) + (if 3 dvd x then 0 else 1)
      in float_round q div 2 ^ 56)"

section \<open>Token estimator\<close>

definition is_chinese :: "nat \<Rightarrow> bool" where
  "is_chinese c \<longleftrightarrow> 0x4e00 \<le> c \<and> c \<le> 0x9fff"

definition has_code :: "ustring \<Rightarrow> bool" where
  "has_code text \<longleftrightarrow>
     0 < count_str text (ustr ''```'') \<or> 0 < count_str text (ustr ''def '')
       \<or> 0 < count_str text (ustr ''class '')"

definition estimate_tokens :: "ustring \<Rightarrow> int" where
  "estimate_tokens text =
     (if text = [] then 0
      else
        let chinese_chars = length (filter is_chinese text);
            english_chars = length text - chinese_chars
        in if has_code text then int (length text) div 3
           else if english_chars < chinese_chars then int (float_div_1_5_trunc (length text))
           else int (length text) div 4)"

section \<open>Context window manager\<close>

text \<open>
  A message handed to \<open>truncate_context\<close> is a dict; the function reads the keys
  \<open>content\<close>, \<open>role\<close> and \<open>name\<close> with \<open>get\<close> and a default, and the step executor adds
  the key \<open>type\<close>.  A key that is absent is \<open>None\<close>.
\<close>

record message =
  content :: "ustring option"
  role :: "ustring option"
  name :: "ustring option"
  type :: "ustring option"

definition MAX_CONTEXT_TOKENS :: int where
  "MAX_CONTEXT_TOKENS = 128000"

definition TRUNCATION_RATIO :: nat where
  "TRUNCATION_RATIO = float_0_7"

text \<open>\<open>str(msg.get(key, ""))\<close>.\<close>

definition get_str :: "ustring option \<Rightarrow> ustring" where
  "get_str v = (case v of None \<Rightarrow> [] | Some s \<Rightarrow> s)"

definition msg_tokens :: "message \<Rightarrow> int" where
  "msg_tokens msg = estimate_tokens (get_str (content msg))"

definition total_tokens :: "message list \<Rightarrow> int" where
  "total_tokens messages = sum_list (map msg_tokens messages)"

text \<open>
  The three priority classes.  \<open>lower\<close> is \<open>str.lower\<close>, whose Unicode case table is
  not part of the repository: it is a parameter.
\<close>

datatype priority = System | Task | Other

definition task_keywords :: "ustring list" where
  "task_keywords =
     [ustr ''current task'', [0x7576, 0x524d, 0x4efb, 0x52d9], ustr ''title'', ustr ''description'']"

definition classify :: "(ustring \<Rightarrow> ustring) \<Rightarrow> message \<Rightarrow> priority" where
  "classify lower msg =
     (if role msg = Some (ustr ''system'') \<or> sublist (ustr ''system'') (lower (get_str (name msg)))
      then System
      else if \<exists>keyword \<in> set task_keywords. sublist keyword (lower (get_str (content msg)))
      then Task
      else Other)"

text \<open>The marker appended to a message that was cut: a blank line and a bracketed CJK note.\<close>

definition truncation_marker :: ustring where
  "truncation_marker = [10, 10, 91, 0x5167, 0x5bb9, 0x5df2, 0x622a, 0x65b7, 46, 46, 46, 93]"

definition truncate_message :: "message \<Rightarrow> message" where
  "truncate_message msg =
     (let content = get_str (content msg);
          truncated_content =
            take (nat (float_mul_trunc (int (length content)) float_0_6)) content @ truncation_marker
      in msg\<lparr>content := Some truncated_content\<rparr>)"

text \<open>
  The inner function \<open>add_messages_if_fits\<close> updates the two nonlocal variables
  \<open>truncated_messages\<close> and \<open>current_tokens\<close>; here they are passed in and returned.
  The loop stops at the first message that does not fit.
\<close>

fun add_messages_if_fits ::
  "message list \<Rightarrow> int \<Rightarrow> message list \<times> int \<Rightarrow> message list \<times> int" where
  "add_messages_if_fits [] max_tokens_remaining (truncated_messages, current_tokens) =
     (truncated_messages, current_tokens)"
| "add_messages_if_fits (msg # msg_list) max_tokens_remaining (truncated_messages, current_tokens) =
     (let msg' = (if gt_float_mul (msg_tokens msg) max_tokens_remaining float_0_8
                  then truncate_message msg else msg)
      in if current_tokens + msg_tokens msg' \<le> max_tokens_remaining
         then add_messages_if_fits msg_list max_tokens_remaining
                (truncated_messages @ [msg'], current_tokens + msg_tokens msg')
         else (truncated_messages, current_tokens))"

text \<open>\<open>messages.index(x) if x in messages else len(messages)\<close>.\<close>

fun index_or_len :: "'a list \<Rightarrow> 'a \<Rightarrow> nat" where
  "index_or_len [] x = 0"
| "index_or_len (y # ys) x = (if x = y then 0 else Suc (index_or_len ys x))"

text \<open>
  The accepted messages before the final sort, with the running total.
\<close>

definition select_messages ::
  "(ustring \<Rightarrow> ustring) \<Rightarrow> message list \<Rightarrow> int \<Rightarrow> message list \<times> int" where
  "select_messages lower messages max_tokens =
     (let target_tokens = float_mul_trunc max_tokens TRUNCATION_RATIO;
          system_messages = filter (\<lambda>msg. classify lower msg = System) messages;
          task_messages = filter (\<lambda>msg. classify lower msg = Task) messages;
          other_messages = filter (\<lambda>msg. classify lower msg = Other) messages;
          s1 = add_messages_if_fits system_messages target_tokens ([], 0);
          s2 = add_messages_if_fits task_messages (target_tokens - snd s1) s1;
          s3 = add_messages_if_fits (rev other_messages) (target_tokens - snd s2) s2
      in s3)"

text \<open>
  \<open>truncate_context(messages, max_tokens=None)\<close>.  Python's \<open>list.sort\<close> is stable, and so
  is \<^const>\<open>sort_key\<close>.
\<close>

definition truncate_context ::
  "(ustring \<Rightarrow> ustring) \<Rightarrow> message list \<Rightarrow> int option \<Rightarrow> message list" where
  "truncate_context lower messages max_tokens_arg =
     (let max_tokens = (case max_tokens_arg of None \<Rightarrow> MAX_CONTEXT_TOKENS | Some n \<Rightarrow> n)
      in if messages = [] then messages
         else if total_tokens messages \<le> max_tokens then messages
         else sort_key (index_or_len messages) (fst (select_messages lower messages max_tokens)))"

text \<open>
  \<open>str.lower\<close> and \<open>str.upper\<close> restricted to ASCII letters, for running the model on
  concrete ASCII text (where they agree with Python's).
\<close>

definition ascii_lower :: "ustring \<Rightarrow> ustring" where
  "ascii_lower s = map (\<lambda>c. if 65 \<le> c \<and> c \<le> 90 then c + 32 else c) s"

definition ascii_upper :: "ustring \<Rightarrow> ustring" where
  "ascii_upper s = map (\<lambda>c. if 97 \<le> c \<and> c \<le> 122 then c - 32 else c) s"

subsection \<open>A concrete conversation\<close>

text \<open>
  Two system messages and one user message; their estimated costs are 6, 1 and 4 tokens.
\<close>

definition ex_persona :: message where
  "ex_persona = \<lparr>content = Some (ustr ''Answer briefly, in Czech''), role = Some (ustr ''system''), name = None, type = None\<rparr>"
definition ex_tone :: message where
  "ex_tone = \<lparr>content = Some (ustr ''Be kind''), role = Some (ustr ''system''), name = None, type = None\<rparr>"
definition ex_question :: message where
  "ex_question = \<lparr>content = Some (ustr ''what is the time''), role = Some (ustr ''user''), name = None, type = None\<rparr>"


section \<open>Plan, workflow state and commands\<close>

text \<open>
  A plan step and a plan, with the fields the nodes read; \<open>execution_res\<close> is \<open>None\<close>
  until a step has been executed.
\<close>

record step =
  title :: ustring
  description :: ustring
  execution_res :: "ustring option"

record plan =
  plan_locale :: ustring
  has_enough_context :: bool
  thought :: ustring
  plan_title :: ustring
  steps :: "step list"

text \<open>
  The message objects of the chat library: a human (user) message, an AI (assistant)
  message, and a chat message, which is the one class that carries a \<open>role\<close> attribute.
\<close>

datatype msg_class = HumanMessage | AIMessage | ChatMessage ustring

record lc_message =
  lc_class :: msg_class
  lc_content :: ustring
  lc_name :: "ustring option"

text \<open>
  An entry of the state's \<open>messages\<close>: an object with a \<open>content\<close> attribute, a dict, or
  anything else.
\<close>

datatype state_message = Object lc_message | Dict message | Opaque

text \<open>\<open>current_plan\<close> holds the planner's raw text while it awaits review, then a plan.\<close>

datatype plan_value = PlanText ustring | PlanObject plan

record resource =
  resource_title :: ustring
  resource_description :: ustring

text \<open>
  The workflow state.  \<open>messages\<close> is always present; a key that the nodes read with
  \<open>state.get\<close> is \<open>None\<close> when it is absent.
\<close>

record state =
  messages :: "state_message list"
  plan_iterations :: "int option"
  current_plan :: "plan_value option"
  observations :: "ustring list option"
  state_locale :: "ustring option"
  resources :: "resource list option"
  auto_accepted_plan :: "bool option"

datatype node = planner | human_feedback | research_team | reporter | END

text \<open>A parsed JSON value; a JSON object is the list of its items, keys distinct.\<close>

datatype json =
  JNull | JBool bool | JNumber int | JString ustring | JArray "json list"
  | JObject "(ustring \<times> json) list"

text \<open>
  \<open>Command(update={...}, goto=...)\<close>: the next node and the entries of the update dict
  (\<open>None\<close>: the key is not in the dict).  The graph runtime appends the \<open>messages\<close> entry
  to the state's messages and stores the other entries.
\<close>

record command =
  goto :: node
  update_messages :: "lc_message list option"
  update_current_plan :: "plan_value option"
  update_plan_iterations :: "int option"
  update_locale :: "json option"
  update_observations :: "ustring list option"

definition Command :: "node \<Rightarrow> command" where
  "Command target =
     \<lparr>goto = target, update_messages = None, update_current_plan = None,
      update_plan_iterations = None, update_locale = None, update_observations = None\<rparr>"

text \<open>
  Exceptions, by class.  An exception raised by the agent carries its text, which the
  step executor inspects.
\<close>

datatype error =
  TypeError | KeyError | AttributeError | IndexError | UnboundLocalError
  | JSONDecodeError | ValidationError | AgentError ustring

text \<open>Truth value of a JSON value, \<open>value.get(key)\<close> and \<open>value[key]\<close>.\<close>

fun truthy :: "json \<Rightarrow> bool" where
  "truthy JNull = False"
| "truthy (JBool b) = b"
| "truthy (JNumber n) = (n \<noteq> 0)"
| "truthy (JString s) = (s \<noteq> [])"
| "truthy (JArray xs) = (xs \<noteq> [])"
| "truthy (JObject items) = (items \<noteq> [])"

fun dict_get :: "json \<Rightarrow> ustring \<Rightarrow> error + json option" where
  "dict_get (JObject items) key = Inr (map_of items key)"
| "dict_get _ key = Inl AttributeError"

fun subscript :: "json \<Rightarrow> ustring \<Rightarrow> error + json" where
  "subscript (JObject items) key =
     (case map_of items key of None \<Rightarrow> Inl KeyError | Some v \<Rightarrow> Inr v)"
| "subscript _ key = Inl TypeError"

text \<open>\<open>state["plan_iterations"] if state.get("plan_iterations", 0) else 0\<close>.\<close>

definition get_plan_iterations :: "state \<Rightarrow> int" where
  "get_plan_iterations state = (case plan_iterations state of None \<Rightarrow> 0 | Some n \<Rightarrow> n)"

section \<open>Planner and human feedback\<close>

text \<open>
  The JSON repair function, the JSON parser and the plan validator are not part of the
  repository: they are the parameters \<open>repair_json_output\<close> (which may raise),
  \<open>json_loads\<close> (\<open>None\<close>: JSONDecodeError) and \<open>model_validate\<close> (\<open>None\<close>: ValidationError).
  The planner's model is called only after the iteration check; \<open>full_response\<close> is the
  text it answers with.
\<close>

text \<open>
  The handler of JSONDecodeError in the planner: it logs the repaired response, which
  calls the repair function once more, and then branches on the iteration count.
\<close>

definition planner_decode_error ::
  "(plan_value \<Rightarrow> error + ustring) \<Rightarrow> ustring \<Rightarrow> int \<Rightarrow> error + command" where
  "planner_decode_error repair_json_output full_response iterations =
     (case repair_json_output (PlanText full_response) of
        Inl e \<Rightarrow> Inl e
      | Inr _ \<Rightarrow> Inr (Command (if 0 < iterations then reporter else END)))"

definition planner_message :: "ustring \<Rightarrow> lc_message" where
  "planner_message full_response =
     \<lparr>lc_class = AIMessage, lc_content = full_response, lc_name = Some (ustr ''planner'')\<rparr>"

definition planner_node ::
  "(plan_value \<Rightarrow> error + ustring) \<Rightarrow> (ustring \<Rightarrow> json option) \<Rightarrow> (json \<Rightarrow> plan option)
     \<Rightarrow> int \<Rightarrow> state \<Rightarrow> ustring \<Rightarrow> error + command" where
  "planner_node repair_json_output json_loads model_validate max_plan_iterations state full_response =
     (let iterations = get_plan_iterations state
      in if max_plan_iterations \<le> iterations then Inr (Command reporter)
         else
           case repair_json_output (PlanText full_response) of
             Inl e \<Rightarrow>
               if e = JSONDecodeError
               then planner_decode_error repair_json_output full_response iterations
               else Inl e
           | Inr repaired_response \<Rightarrow>
               (case json_loads repaired_response of
                  None \<Rightarrow> planner_decode_error repair_json_output full_response iterations
                | Some curr_plan \<Rightarrow>
                    (case dict_get curr_plan (ustr ''has_enough_context'') of
                       Inl e \<Rightarrow> Inl e
                     | Inr v \<Rightarrow>
                         if (case v of None \<Rightarrow> False | Some x \<Rightarrow> truthy x)
                         then
                           (case model_validate curr_plan of
                              None \<Rightarrow> Inl ValidationError
                            | Some new_plan \<Rightarrow>
                                Inr ((Command reporter)
                                  \<lparr>update_messages := Some [planner_message full_response],
                                   update_current_plan := Some (PlanObject new_plan)\<rparr>))
                         else
                           Inr ((Command human_feedback)
                             \<lparr>update_messages := Some [planner_message full_response],
                              update_current_plan := Some (PlanText full_response)\<rparr>))))"

text \<open>
  The second half of \<open>human_feedback_node\<close>, which runs once the plan is accepted, by the
  user or automatically.
\<close>

definition accept_plan ::
  "(plan_value \<Rightarrow> error + ustring) \<Rightarrow> (ustring \<Rightarrow> json option) \<Rightarrow> (json \<Rightarrow> plan option)
     \<Rightarrow> state \<Rightarrow> error + command" where
  "accept_plan repair_json_output json_loads model_validate state =
     (let plan_text = (case current_plan state of None \<Rightarrow> PlanText [] | Some v \<Rightarrow> v);
          iterations = get_plan_iterations state
      in case repair_json_output plan_text of
           Inl e \<Rightarrow>
             if e = JSONDecodeError
             then Inr (Command (if 0 < iterations then reporter else END))
             else Inl e
         | Inr repaired \<Rightarrow>
             (let incremented = iterations + 1
              in case json_loads repaired of
                   None \<Rightarrow> Inr (Command (if 0 < incremented then reporter else END))
                 | Some new_plan \<Rightarrow>
                     (case subscript new_plan (ustr ''has_enough_context'') of
                        Inl e \<Rightarrow> Inl e
                      | Inr v \<Rightarrow>
                          (case model_validate new_plan of
                             None \<Rightarrow> Inl ValidationError
                           | Some validated \<Rightarrow>
                               (case subscript new_plan (ustr ''locale'') of
                                  Inl e \<Rightarrow> Inl e
                                | Inr new_locale \<Rightarrow>
                                    Inr ((Command (if truthy v then reporter else research_team))
                                      \<lparr>update_current_plan := Some (PlanObject validated),
                                       update_plan_iterations := Some incremented,
                                       update_locale := Some new_locale\<rparr>))))))"

text \<open>
  \<open>feedback\<close> is the string the interrupt returns when the run is resumed; \<open>upper\<close> is
  \<open>str.upper\<close>, a parameter like \<open>lower\<close>.
\<close>

definition human_feedback_node ::
  "(ustring \<Rightarrow> ustring) \<Rightarrow> (plan_value \<Rightarrow> error + ustring) \<Rightarrow> (ustring \<Rightarrow> json option)
     \<Rightarrow> (json \<Rightarrow> plan option) \<Rightarrow> state \<Rightarrow> ustring \<Rightarrow> error + command" where
  "human_feedback_node upper repair_json_output json_loads model_validate state feedback =
     (if \<not> (case auto_accepted_plan state of None \<Rightarrow> False | Some b \<Rightarrow> b)
      then
        if feedback \<noteq> [] \<and> prefix (ustr ''[EDIT_PLAN]'') (upper feedback)
        then Inr ((Command planner)
               \<lparr>update_messages :=
                  Some [\<lparr>lc_class = HumanMessage, lc_content = feedback,
                         lc_name = Some (ustr ''feedback'')\<rparr>]\<rparr>)
        else if feedback \<noteq> [] \<and> prefix (ustr ''[ACCEPTED]'') (upper feedback)
        then accept_plan repair_json_output json_loads model_validate state
        else Inl TypeError
      else accept_plan repair_json_output json_loads model_validate state)"

section \<open>Step executor\<close>

text \<open>\<open>step.execution_res\<close> as a condition: neither \<open>None\<close> nor the empty string.\<close>

definition has_result :: "step \<Rightarrow> bool" where
  "has_result step \<longleftrightarrow> (case execution_res step of None \<Rightarrow> False | Some r \<Rightarrow> r \<noteq> [])"

text \<open>
  The loop that looks for the first unexecuted step returns its position; the steps
  before it are the completed steps.
\<close>

fun find_unexecuted :: "step list \<Rightarrow> nat option" where
  "find_unexecuted [] = None"
| "find_unexecuted (step # rest) =
     (if \<not> has_result step then Some 0 else map_option Suc (find_unexecuted rest))"

fun findings :: "nat \<Rightarrow> step list \<Rightarrow> ustring" where
  "findings i [] = []"
| "findings i (step # rest) =
     ustr ''## Existing Finding '' @ str_nat (i + 1) @ ustr '': '' @ title step
       @ ustr ''\<newline>\<newline>''
       @ ustr ''<finding>\<newline>'' @ get_str (execution_res step) @ ustr ''\<newline></finding>\<newline>\<newline>''
       @ findings (i + 1) rest"

definition completed_steps_info :: "step list \<Rightarrow> ustring" where
  "completed_steps_info completed_steps =
     (if completed_steps = [] then []
      else ustr ''# Existing Research Findings\<newline>\<newline>'' @ findings 0 completed_steps)"

definition current_task_content :: "state \<Rightarrow> step \<Rightarrow> ustring" where
  "current_task_content state current_step =
     ustr ''# Current Task\<newline>\<newline>## Title\<newline>\<newline>'' @ title current_step
       @ ustr ''\<newline>\<newline>## Description\<newline>\<newline>'' @ description current_step
       @ ustr ''\<newline>\<newline>## Locale\<newline>\<newline>''
       @ (case state_locale state of None \<Rightarrow> ustr ''en-US'' | Some l \<Rightarrow> l)"

text \<open>\<open>xs[-n:]\<close>.\<close>

definition last_n :: "nat \<Rightarrow> 'a list \<Rightarrow> 'a list" where
  "last_n n xs = drop (length xs - n) xs"

definition state_message_part :: "state_message \<Rightarrow> message list" where
  "state_message_part msg =
     (case msg of
        Object m \<Rightarrow>
          [\<lparr>content = Some (lc_content m),
            role = Some (case lc_class m of ChatMessage r \<Rightarrow> r | _ \<Rightarrow> ustr ''user''),
            name = None, type = Some (ustr ''state_message'')\<rparr>]
      | Dict d \<Rightarrow> [d\<lparr>type := Some (ustr ''state_message'')\<rparr>]
      | Opaque \<Rightarrow> [])"

fun numbered_observations :: "nat \<Rightarrow> ustring list \<Rightarrow> ustring list" where
  "numbered_observations i [] = []"
| "numbered_observations i (obs # rest) =
     ([0x89c0, 0x5bdf] @ ustr '' '' @ str_nat (i + 1) @ ustr '': '' @ obs)
       # numbered_observations (i + 1) rest"

definition observations_part :: "ustring list \<Rightarrow> message list" where
  "observations_part obs_list =
     (if obs_list = [] then []
      else
        let recent_observations = last_n 3 obs_list;
            obs_content = join (ustr ''\<newline>\<newline>'') (numbered_observations 0 recent_observations)
        in if obs_content = [] then []
           else [\<lparr>content = Some obs_content, role = Some (ustr ''system''), name = None,
                  type = Some (ustr ''observations'')\<rparr>])"

definition get_observations :: "state \<Rightarrow> ustring list" where
  "get_observations state = (case observations state of None \<Rightarrow> [] | Some obs \<Rightarrow> obs)"

text \<open>The list \<open>context_parts\<close> that the executor hands to \<open>truncate_context\<close>.\<close>

definition context_parts :: "state \<Rightarrow> step list \<Rightarrow> step \<Rightarrow> message list" where
  "context_parts state completed_steps current_step =
     (if completed_steps_info completed_steps = [] then []
      else [\<lparr>content = Some (completed_steps_info completed_steps), role = Some (ustr ''system''),
             name = None, type = Some (ustr ''completed_steps'')\<rparr>])
     @ [\<lparr>content = Some (current_task_content state current_step), role = Some (ustr ''user''),
         name = None, type = Some (ustr ''current_task'')\<rparr>]
     @ concat (map state_message_part (last_n 5 (messages state)))
     @ observations_part (get_observations state)"

definition human :: "ustring \<Rightarrow> lc_message" where
  "human text = \<lparr>lc_class = HumanMessage, lc_content = text, lc_name = None\<rparr>"

text \<open>
  The messages of \<open>agent_input\<close> after the context has been truncated and the input
  rebuilt from what is left.
\<close>

definition rebuild_agent_input ::
  "(ustring \<Rightarrow> ustring) \<Rightarrow> state \<Rightarrow> step list \<Rightarrow> step \<Rightarrow> lc_message list" where
  "rebuild_agent_input lower state completed_steps current_step =
     (let truncated_context =
            truncate_context lower (context_parts state completed_steps current_step) None
      in if truncated_context = []
         then [human (completed_steps_info completed_steps @ current_task_content state current_step)]
         else
           let current_content =
                 (case find (\<lambda>msg. type msg = Some (ustr ''current_task'')) truncated_context of
                    Some task_msg \<Rightarrow> get_str (content task_msg)
                  | None \<Rightarrow>
                      [0x4efb, 0x52d9] @ ustr '': '' @ title current_step
                        @ ustr ''\<newline>'' @ [0x63cf, 0x8ff0] @ ustr '': '' @ description current_step);
               additional_context =
                 map (\<lambda>msg. get_str (content msg))
                   (filter (\<lambda>msg. (type msg = Some (ustr ''completed_steps'')
                                      \<or> type msg = Some (ustr ''observations''))
                                    \<and> get_str (content msg) \<noteq> [])
                      truncated_context);
               context_summary = join (ustr ''\<newline>\<newline>'') additional_context
           in if additional_context \<noteq> [] \<and> context_summary \<noteq> []
              then [human (context_summary @ ustr ''\<newline>\<newline>'' @ current_content)]
              else [human current_content])"

definition resources_info :: "resource list \<Rightarrow> ustring" where
  "resources_info rs =
     ustr ''**The user mentioned the following resource files:**\<newline>\<newline>''
       @ concat (map (\<lambda>r. ustr ''- '' @ resource_title r @ ustr '' ('' @ resource_description r
                            @ ustr '')\<newline>'') rs)"

definition citation_reminder :: lc_message where
  "citation_reminder =
     \<lparr>lc_class = HumanMessage,
      lc_content = ustr ''IMPORTANT: DO NOT include inline citations in the text. Instead, track all sources and include a References section at the end using numbered format. Include an empty line between each citation for better readability. Use this format for each reference:\<newline>[1](URL) - Source Title\<newline>\<newline>[2](URL) - Another Source Title'',
      lc_name = Some (ustr ''system'')\<rparr>"

definition researcher_messages :: "state \<Rightarrow> ustring \<Rightarrow> lc_message list" where
  "researcher_messages state agent_name =
     (if agent_name = ustr ''researcher''
      then (case resources state of
              None \<Rightarrow> []
            | Some rs \<Rightarrow>
                if rs = [] then []
                else [human (resources_info rs @ ustr ''\<newline>\<newline>''
                        @ ustr ''You MUST use the **local_search_tool** to retrieve the information from the resource files.'')])
           @ [citation_reminder]
      else [])"

definition build_agent_input ::
  "(ustring \<Rightarrow> ustring) \<Rightarrow> state \<Rightarrow> ustring \<Rightarrow> step list \<Rightarrow> step \<Rightarrow> lc_message list" where
  "build_agent_input lower state agent_name completed_steps current_step =
     rebuild_agent_input lower state completed_steps current_step
       @ researcher_messages state agent_name"

subsection \<open>The retry loop\<close>

definition max_retries :: nat where
  "max_retries = 3"

definition is_context_overflow :: "(ustring \<Rightarrow> ustring) \<Rightarrow> ustring \<Rightarrow> bool" where
  "is_context_overflow lower e \<longleftrightarrow>
     sublist (ustr ''context_length_exceeded'') (lower e)
       \<or> sublist (ustr ''maximum context length'') (lower e)"

text \<open>\<open>0.8 ** retry_count\<close>, for the two values of \<open>retry_count\<close> at which it is computed.\<close>

definition truncation_factor :: "nat \<Rightarrow> nat" where
  "truncation_factor retry_count = (if retry_count = 1 then float_0_8 else float_0_64)"

definition shrink_content :: "nat \<Rightarrow> ustring \<Rightarrow> ustring" where
  "shrink_content retry_count current_content =
     (let computed = nat (float_mul_trunc (int (length current_content)) (truncation_factor retry_count));
          max_length = (if computed < 1000 then 1000 else computed);
          truncated_content = take max_length current_content
      in if max_length < length current_content
         then truncated_content
                @ ustr ''\<newline>\<newline>['' @ [0x5167, 0x5bb9, 0x5df2, 0x622a, 0x65b7, 0xff0c, 0x539f, 0x9577, 0x5ea6]
                @ ustr '': '' @ str_nat (length current_content)
                @ ustr '' '' @ [0x5b57, 0x7b26] @ ustr '']''
         else truncated_content)"

definition minimal_content :: "step \<Rightarrow> ustring" where
  "minimal_content current_step =
     [0x4efb, 0x52d9] @ ustr '': '' @ title current_step
       @ ustr ''\<newline>'' @ [0x7c21, 0x8981, 0x63cf, 0x8ff0] @ ustr '': ''
       @ take 200 (description current_step) @ ustr ''...''"

text \<open>The text of the mock message that stands in for a result when every attempt failed.\<close>

definition placeholder :: "step \<Rightarrow> ustring" where
  "placeholder current_step =
     [0x62b1, 0x6b49, 0xff0c, 0x7531, 0x65bc, 0x4e0a, 0x4e0b, 0x6587, 0x9577, 0x5ea6, 0x9650, 0x5236,
      0xff0c, 0x7121, 0x6cd5, 0x5b8c, 0x6210, 0x4efb, 0x52d9] @ ustr '' '' @ [0x27]
       @ title current_step
       @ [0x27, 0x3002, 0x8acb, 0x8003, 0x616e, 0xff1a] @ ustr ''\<newline>1. ''
       @ [0x4f7f, 0x7528, 0x652f, 0x63f4, 0x66f4, 0x5927, 0x4e0a, 0x4e0b, 0x6587, 0x7684, 0x6a21, 0x578b]
       @ ustr ''\<newline>2. '' @ [0x6e1b, 0x5c11, 0x7814, 0x7a76, 0x6b65, 0x9a5f, 0x6578, 0x91cf]
       @ ustr ''\<newline>3. '' @ [0x8abf, 0x6574] @ ustr '' MAX_CONTEXT_TOKENS ''
       @ [0x74b0, 0x5883, 0x8b8a, 0x6578]"

text \<open>
  The agent is a parameter: \<open>agent k messages\<close> is what the call number \<open>k\<close> (from 0) of
  \<open>agent.ainvoke\<close> does on these input messages, either an exception with the text
  \<open>str(e)\<close> or the contents of the messages of the result.  The loop variable
  \<open>retry_count\<close> is also the number of calls made so far.  The branch in which the loop
  ends with no result cannot be reached from \<open>retry_count = 0\<close>.
\<close>

function invoke_with_retries ::
  "(ustring \<Rightarrow> ustring) \<Rightarrow> (nat \<Rightarrow> lc_message list \<Rightarrow> ustring + ustring list) \<Rightarrow> step
     \<Rightarrow> lc_message list \<Rightarrow> nat \<Rightarrow> error + ustring list" where
  "invoke_with_retries lower agent current_step agent_input retry_count =
     (if retry_count < max_retries
      then
        case agent retry_count agent_input of
          Inr result \<Rightarrow> Inr result
        | Inl e \<Rightarrow>
            if is_context_overflow lower e
            then
              if retry_count + 1 < max_retries
              then
                (case agent_input of
                   [] \<Rightarrow> Inl IndexError
                 | first # rest \<Rightarrow>
                     invoke_with_retries lower agent current_step
                       (human (shrink_content (retry_count + 1) (lc_content first)) # rest)
                       (retry_count + 1))
              else
                (case agent (retry_count + 1) [human (minimal_content current_step)] of
                   Inr result \<Rightarrow> Inr result
                 | Inl final_e \<Rightarrow> Inr [placeholder current_step])
            else Inl (AgentError e)
      else Inl UnboundLocalError)"
  by pat_completeness auto
termination
  by (relation "measure (\<lambda>(lower, agent, current_step, agent_input, retry_count). max_retries - retry_count)")
     auto

declare invoke_with_retries.simps [simp del]

text \<open>
  \<open>_execute_agent_step\<close>.  The function mutates the claimed step inside the state's plan;
  the new state is returned beside the command.
\<close>

definition execute_agent_step ::
  "(ustring \<Rightarrow> ustring) \<Rightarrow> (nat \<Rightarrow> lc_message list \<Rightarrow> ustring + ustring list) \<Rightarrow> ustring
     \<Rightarrow> state \<Rightarrow> error + state \<times> command" where
  "execute_agent_step lower agent agent_name state =
     (case current_plan state of
        Some (PlanObject the_plan) \<Rightarrow>
          (case find_unexecuted (steps the_plan) of
             None \<Rightarrow> Inr (state, Command research_team)
           | Some i \<Rightarrow>
               let current_step = steps the_plan ! i;
                   completed_steps = take i (steps the_plan);
                   agent_input = build_agent_input lower state agent_name completed_steps current_step
               in case invoke_with_retries lower agent current_step agent_input 0 of
                    Inl e \<Rightarrow> Inl e
                  | Inr result \<Rightarrow>
                      if result = [] then Inl IndexError
                      else
                        let response_content = last result;
                            executed = current_step\<lparr>execution_res := Some response_content\<rparr>
                        in Inr
                             (state\<lparr>current_plan :=
                                 Some (PlanObject (the_plan\<lparr>steps := (steps the_plan)[i := executed]\<rparr>))\<rparr>,
                              (Command research_team)
                                \<lparr>update_messages :=
                                   Some [\<lparr>lc_class = HumanMessage, lc_content = response_content,
                                          lc_name = Some agent_name\<rparr>],
                                 update_observations :=
                                   Some (get_observations state @ [response_content])\<rparr>))
      | _ \<Rightarrow> Inl AttributeError)"

section \<open>Concrete runs\<close>

text \<open>
  A planner response with enough context, what the parser and the validator make of it,
  a state that awaits the review of that plan, and a state at the start of a run.
\<close>

definition ex_response :: ustring where
  \<open>ex_response = ustr ''{"locale": "en-US", "has_enough_context": true, "thought": "known", "title": "Tides", "steps": []}''\<close>

definition ex_plan_json :: json where
  "ex_plan_json =
     JObject [(ustr ''locale'', JString (ustr ''en-US'')), (ustr ''has_enough_context'', JBool True),
              (ustr ''thought'', JString (ustr ''known'')), (ustr ''title'', JString (ustr ''Tides'')),
              (ustr ''steps'', JArray [])]"

definition ex_plan :: plan where
  "ex_plan = \<lparr>plan_locale = ustr ''en-US'', has_enough_context = True, thought = ustr ''known'',
              plan_title = ustr ''Tides'', steps = []\<rparr>"

definition ex_repair :: "plan_value \<Rightarrow> error + ustring" where
  "ex_repair v = (case v of PlanText t \<Rightarrow> Inr t | PlanObject p \<Rightarrow> Inl AttributeError)"

definition ex_loads :: "ustring \<Rightarrow> json option" where
  "ex_loads t = (if t = ex_response then Some ex_plan_json else None)"

definition ex_validate :: "json \<Rightarrow> plan option" where
  "ex_validate j = (if j = ex_plan_json then Some ex_plan else None)"

definition ex_review_state :: state where
  "ex_review_state =
     \<lparr>messages = [], plan_iterations = None, current_plan = Some (PlanText ex_response),
      observations = None, state_locale = None, resources = None, auto_accepted_plan = Some False\<rparr>"

definition ex_fresh_state :: state where
  "ex_fresh_state =
     \<lparr>messages = [], plan_iterations = None, current_plan = None,
      observations = None, state_locale = None, resources = None, auto_accepted_plan = None\<rparr>"


text \<open>
  A plan whose first step is done and whose second is not, the state of its run, three
  agents (one that answers, one whose every call overflows the context, one that
  overflows three times and then answers), and the state and the command that a
  response leaves behind.
\<close>

definition ex_step_survey :: step where
  "ex_step_survey = \<lparr>title = ustr ''Survey'', description = ustr ''Collect tide tables'',
                      execution_res = Some (ustr ''3 tables'')\<rparr>"

definition ex_step_model :: step where
  "ex_step_model = \<lparr>title = ustr ''Model'', description = ustr ''Fit a harmonic model'',
                     execution_res = None\<rparr>"

definition ex_run_plan :: plan where
  "ex_run_plan = \<lparr>plan_locale = ustr ''en-US'', has_enough_context = False, thought = ustr ''needs data'',
                   plan_title = ustr ''Tides'', steps = [ex_step_survey, ex_step_model]\<rparr>"

definition ex_run_state :: state where
  "ex_run_state =
     \<lparr>messages = [], plan_iterations = Some 1, current_plan = Some (PlanObject ex_run_plan),
      observations = Some [ustr ''3 tables''], state_locale = Some (ustr ''en-US''), resources = None,
      auto_accepted_plan = Some True\<rparr>"

definition ex_agent_ok :: "nat \<Rightarrow> lc_message list \<Rightarrow> ustring + ustring list" where
  "ex_agent_ok k agent_input = Inr [ustr ''fitted'']"

definition ex_agent_overflow :: "nat \<Rightarrow> lc_message list \<Rightarrow> ustring + ustring list" where
  "ex_agent_overflow k agent_input = Inl (ustr ''context_length_exceeded'')"

definition ex_agent_recovers :: "nat \<Rightarrow> lc_message list \<Rightarrow> ustring + ustring list" where
  "ex_agent_recovers k agent_input =
     (if k < 3 then Inl (ustr ''context_length_exceeded'') else Inr [ustr ''fitted''])"

definition ex_state_after :: "ustring \<Rightarrow> state" where
  "ex_state_after response =
     ex_run_state\<lparr>current_plan :=
       Some (PlanObject (ex_run_plan\<lparr>steps := [ex_step_survey, ex_step_model\<lparr>execution_res := Some response\<rparr>]\<rparr>))\<rparr>"

definition ex_command_after :: "ustring \<Rightarrow> command" where
  "ex_command_after response =
     \<lparr>goto = research_team,
      update_messages = Some [\<lparr>lc_class = HumanMessage, lc_content = response, lc_name = Some (ustr ''coder'')\<rparr>],
      update_current_plan = None, update_plan_iterations = None, update_locale = None,
      update_observations = Some [ustr ''3 tables'', response]\<rparr>"


section \<open>Properties of the arithmetic\<close>

lemma bit_length_bounds: "n \<noteq> 0 \<Longrightarrow> 2 ^ (bit_length n - 1) \<le> n \<and> n < 2 ^ bit_length n"
proof (induction n rule: bit_length.induct)
  case (1 n)
  show ?case
  proof (cases "n div 2 = 0")
    case True
    with 1 have "n = 1" by presburger
    then show ?thesis by (simp add: bit_length.simps)
  next
    case False
    define a where "a = (2::nat) ^ (bit_length (n div 2) - 1)"
    from False have pos: "bit_length (n div 2) \<noteq> 0" by (simp add: bit_length.simps)
    then have two: "(2::nat) ^ bit_length (n div 2) = 2 * a"
      unfolding a_def by (cases "bit_length (n div 2)") auto
    from 1 False have "a \<le> n div 2" "n div 2 < 2 ^ bit_length (n div 2)"
      unfolding a_def by auto
    then have "a \<le> n div 2" "n div 2 < 2 * a" using two by auto
    then have "2 * a \<le> n \<and> n < 2 * (2 * a)" by presburger
    moreover have eq: "bit_length n = Suc (bit_length (n div 2))"
      using 1(2) by (simp add: bit_length.simps)
    ultimately show ?thesis using two by simp
  qed
qed

lemma bit_length_le: "n < 2 ^ k \<Longrightarrow> bit_length n \<le> k"
proof (cases "n = 0")
  case True then show ?thesis by (simp add: bit_length.simps)
next
  case False
  assume "n < 2 ^ k"
  with bit_length_bounds[OF False] have "(2::nat) ^ (bit_length n - 1) < 2 ^ k" by linarith
  then have "bit_length n - 1 < k" by simp
  then show ?thesis by simp
qed

lemma round_half_even_zero: "round_half_even p 0 = p"
  by (simp add: round_half_even_def)

lemma float_round_small: "n < 2 ^ 53 \<Longrightarrow> float_round n = n"
  using bit_length_le[of n 53] by (simp add: float_round_def round_half_even_zero)

lemma round_half_even_upper: "0 < k \<Longrightarrow> round_half_even p k * 2 ^ k \<le> p + 2 ^ (k - 1)"
proof -
  assume k: "0 < k"
  define q where "q = p div 2 ^ k"
  define r where "r = p mod 2 ^ k"
  have p: "p = q * 2 ^ k + r" unfolding q_def r_def by (rule div_mult_mod_eq[symmetric])
  have two: "(2::nat) ^ k = 2 * 2 ^ (k - 1)" using k by (cases k) auto
  show ?thesis
  proof (cases "2 ^ k < 2 * r \<or> (2 * r = 2 ^ k \<and> odd q)")
    case True
    then have "round_half_even p k = q + 1" by (simp add: round_half_even_def q_def r_def Let_def)
    moreover from True have "2 ^ (k - 1) \<le> r" using two by auto
    ultimately show ?thesis using p two by (simp add: algebra_simps)
  next
    case False
    then have "round_half_even p k = q" by (auto simp add: round_half_even_def q_def r_def Let_def)
    then show ?thesis using p by simp
  qed
qed

lemma round_half_even_lower: "0 < k \<Longrightarrow> p \<le> round_half_even p k * 2 ^ k + 2 ^ (k - 1)"
proof -
  assume k: "0 < k"
  define q where "q = p div 2 ^ k"
  define r where "r = p mod 2 ^ k"
  have p: "p = q * 2 ^ k + r" unfolding q_def r_def by (rule div_mult_mod_eq[symmetric])
  have two: "(2::nat) ^ k = 2 * 2 ^ (k - 1)" using k by (cases k) auto
  show ?thesis
  proof (cases "2 ^ k < 2 * r \<or> (2 * r = 2 ^ k \<and> odd q)")
    case True
    then have "round_half_even p k = q + 1" by (simp add: round_half_even_def q_def r_def Let_def)
    moreover have "r < 2 ^ k" by (simp add: r_def)
    ultimately show ?thesis using p two by (simp add: algebra_simps)
  next
    case False
    then have "round_half_even p k = q" by (auto simp add: round_half_even_def q_def r_def Let_def)
    moreover from False have "r \<le> 2 ^ (k - 1)" using two by auto
    ultimately show ?thesis using p by simp
  qed
qed

lemma float_round_upper: "2 ^ 53 * float_round p \<le> (2 ^ 53 + 1) * p"
proof (cases "bit_length p \<le> 53")
  case True
  then show ?thesis by (simp add: float_round_def round_half_even_zero)
next
  case False
  define k where "k = bit_length p - 53"
  from False have k: "0 < k" and bl: "bit_length p - 1 = (k - 1) + 53" by (auto simp: k_def)
  from False have "p \<noteq> 0" by (cases "p = 0") (simp_all add: bit_length.simps)
  from bit_length_bounds[OF this] bl have "2 ^ ((k - 1) + 53) \<le> p" by simp
  then have low: "2 ^ 53 * 2 ^ (k - 1) \<le> p" by (simp add: power_add mult.commute)
  have "float_round p \<le> p + 2 ^ (k - 1)"
    using round_half_even_upper[OF k, of p] by (simp add: float_round_def k_def Let_def)
  then have "2 ^ 53 * float_round p \<le> 2 ^ 53 * (p + 2 ^ (k - 1))" by simp
  also have "\<dots> \<le> 2 ^ 53 * p + p" using low by (simp add: algebra_simps)
  finally show ?thesis by (simp add: algebra_simps)
qed

lemma float_mul_0_7_le: "float_mul n float_0_7 div 2 ^ 53 \<le> n"
proof -
  define a where "a = float_round n"
  define P where "P = float_round (a * float_0_7)"
  have 1: "2 ^ 53 * a \<le> (2 ^ 53 + 1) * n" unfolding a_def by (rule float_round_upper)
  have 2: "2 ^ 53 * P \<le> (2 ^ 53 + 1) * (a * float_0_7)" unfolding P_def by (rule float_round_upper)
  have "2 ^ 53 * (2 ^ 53 * P) \<le> 2 ^ 53 * ((2 ^ 53 + 1) * (a * float_0_7))"
    using 2 by (rule mult_le_mono2)
  also have "\<dots> = ((2 ^ 53 + 1) * float_0_7) * (2 ^ 53 * a)" by (simp add: algebra_simps)
  also have "\<dots> \<le> ((2 ^ 53 + 1) * float_0_7) * ((2 ^ 53 + 1) * n)"
    using 1 by (rule mult_le_mono2)
  also have "\<dots> = ((2 ^ 53 + 1) * (2 ^ 53 + 1) * float_0_7) * n" by (simp add: algebra_simps)
  also have "\<dots> \<le> (2 ^ 53 * 2 ^ 53 * 2 ^ 53) * n"
    by (rule mult_le_mono1) (simp add: float_0_7_def)
  finally have "2 ^ 53 * 2 ^ 53 * P \<le> 2 ^ 53 * 2 ^ 53 * (2 ^ 53 * n)" by (simp add: algebra_simps)
  then have "P \<le> 2 ^ 53 * n" by simp
  then have "P div 2 ^ 53 \<le> n"
    by (metis div_le_mono nonzero_mult_div_cancel_left power_eq_0_iff zero_neq_numeral)
  then show ?thesis by (simp add: float_mul_def P_def a_def)
qed

lemma target_le: "0 \<le> max_tokens \<Longrightarrow> float_mul_trunc max_tokens TRUNCATION_RATIO \<le> max_tokens"
  using float_mul_0_7_le[of "nat max_tokens"]
  by (cases "max_tokens = 0") (auto simp add: float_mul_trunc_def TRUNCATION_RATIO_def)

lemma target_neg: "max_tokens < 0 \<Longrightarrow> float_mul_trunc max_tokens TRUNCATION_RATIO \<le> 0"
  by (simp add: float_mul_trunc_def)

lemma round_half_even_exact: "2 ^ k dvd p \<Longrightarrow> round_half_even p k * 2 ^ k = p"
  by (auto simp add: round_half_even_def Let_def mod_eq_0_iff_dvd)

lemma float_round_exact: "a < 2 ^ 53 \<Longrightarrow> float_round (a * 2 ^ e) = a * 2 ^ e"
proof -
  assume "a < 2 ^ 53"
  then have "a * 2 ^ e < 2 ^ 53 * 2 ^ e" by simp
  then have "a * 2 ^ e < 2 ^ (53 + e)" by (simp add: power_add)
  then have "bit_length (a * 2 ^ e) \<le> 53 + e" by (rule bit_length_le)
  then have "bit_length (a * 2 ^ e) - 53 \<le> e" by simp
  then have "(2::nat) ^ (bit_length (a * 2 ^ e) - 53) dvd 2 ^ e" by (rule le_imp_power_dvd)
  then have "(2::nat) ^ (bit_length (a * 2 ^ e) - 53) dvd a * 2 ^ e" by (rule dvd_mult)
  then show ?thesis by (simp add: float_round_def Let_def round_half_even_exact)
qed

lemma float_round_near:
  assumes "p < 2 ^ (54 + e)"
  shows "float_round p \<le> p + 2 ^ e \<and> p \<le> float_round p + 2 ^ e"
proof (cases "bit_length p - 53 = 0")
  case True
  then show ?thesis by (simp add: float_round_def round_half_even_zero)
next
  case False
  define k where "k = bit_length p - 53"
  from False have k: "0 < k" by (simp add: k_def)
  from assms have "bit_length p \<le> 54 + e" by (rule bit_length_le)
  then have "k - 1 \<le> e" by (simp add: k_def)
  then have le: "(2::nat) ^ (k - 1) \<le> 2 ^ e" by simp
  have R: "float_round p = round_half_even p k * 2 ^ k" by (simp add: float_round_def k_def Let_def)
  from round_half_even_upper[OF k, of p] round_half_even_lower[OF k, of p] le R
  show ?thesis by linarith
qed

lemma float_div_1_5_trunc_eq:
  assumes n: "n < 2 ^ 52"
  shows "float_div_1_5_trunc n = 2 * n div 3"
proof -
  from n have "n < 2 ^ 53" by simp
  then have x: "float_round n = n" by (rule float_round_small)
  have unf: "float_div_1_5_trunc n =
      float_round (2 * (n * 2 ^ 56 div 3) + (if 3 dvd n then 0 else 1)) div 2 ^ 56"
    by (simp only: float_div_1_5_trunc_def x Let_def)
  show ?thesis
  proof (cases "3 dvd n")
    case True
    then obtain j where j: "n = 3 * j" by (auto simp: dvd_def)
    with n have "2 * j < 2 ^ 53" by simp
    then have "float_round ((2 * j) * 2 ^ 56) = (2 * j) * 2 ^ 56" by (rule float_round_exact)
    moreover have "2 * (n * 2 ^ 56 div 3) + (if 3 dvd n then 0 else 1) = (2 * j) * 2 ^ 56"
      using j by simp
    moreover have "2 * n div 3 = 2 * j" using j by simp
    ultimately show ?thesis unfolding unf by simp
  next
    case False
    define c :: nat where "c = 2 ^ 56"
    define A where "A = n * c div 3"
    define \<rho> where "\<rho> = n * c mod 3"
    define q where "q = 2 * A + 1"
    define R where "R = float_round q"
    define m where "m = 2 * n div 3"
    define f where "f = 2 * n mod 3"
    have res: "float_div_1_5_trunc n = R div c"
      unfolding unf using False by (simp add: R_def q_def A_def c_def)
    have c3: "c mod 3 = 1" by (simp add: c_def)
    have "n * c mod 3 = n * (c mod 3) mod 3" by (simp only: mod_mult_right_eq)
    then have "\<rho> = n mod 3" by (simp add: c3 \<rho>_def)
    with False have rho: "1 \<le> \<rho>" "\<rho> \<le> 2" by presburger+
    have N: "n * c = 3 * A + \<rho>" by (simp add: A_def \<rho>_def)
    have f: "1 \<le> f" "f \<le> 2" using False unfolding f_def by presburger+
    have M: "2 * n = 3 * m + f" by (simp add: m_def f_def)
    have "2 * n * c = (3 * m + f) * c" by (simp only: M)
    then have Mc: "2 * (n * c) = 3 * (m * c) + f * c" by (simp add: algebra_simps)
    have fc: "c \<le> f * c" "f * c \<le> 2 * c" using f by simp_all
    have cval: "c = 4 * 2 ^ 54" by (simp add: c_def)
    from n have "n * c < 2 ^ 52 * 2 ^ 56" by (simp add: c_def)
    with N rho have "q < 2 ^ (54 + 54)" unfolding q_def by simp
    from float_round_near[OF this] have near: "R \<le> q + 2 ^ 54" "q \<le> R + 2 ^ 54"
      by (simp_all add: R_def)
    define h :: nat where "h = 2 ^ 54"
    have hpos: "8 \<le> h" by (simp add: h_def)
    have "m * c \<le> R \<and> R < m * c + c"
      using near N rho Mc fc hpos unfolding q_def cval h_def[symmetric] by linarith
    then have "c * m \<le> R" "R < c * Suc m" by (simp_all add: algebra_simps)
    then have "R div c = m" by (rule div_nat_eqI)
    then show ?thesis by (simp add: res m_def)
  qed
qed

section \<open>Properties of the token estimator and of truncation\<close>

lemma count_str_pos: "s \<noteq> [] \<Longrightarrow> 0 < count_str t s \<longleftrightarrow> sublist s t"
proof (induction t s rule: count_str.induct)
  case (1 t s)
  show ?case
  proof (cases t)
    case Nil
    with 1(3) show ?thesis by (simp add: count_str.simps)
  next
    case (Cons c cs)
    show ?thesis
    proof (cases "prefix s t")
      case True
      then have "sublist s t" by (rule prefix_imp_sublist)
      with True 1(3) Cons show ?thesis by (subst count_str.simps) simp
    next
      case False
      with 1(2)[OF 1(3) _ False] 1(3) Cons have "0 < count_str cs s \<longleftrightarrow> sublist s cs" by simp
      with False 1(3) Cons show ?thesis
        by (subst count_str.simps) (simp add: sublist_Cons_right)
    qed
  qed
qed

lemma has_code_iff:
  "has_code text \<longleftrightarrow>
     sublist (ustr ''```'') text \<or> sublist (ustr ''def '') text \<or> sublist (ustr ''class '') text"
  by (simp add: has_code_def count_str_pos ustr_def)

lemma estimate_tokens_nonneg: "0 \<le> estimate_tokens text"
  by (simp add: estimate_tokens_def Let_def div_int_pos_iff)

lemma msg_tokens_nonneg: "0 \<le> msg_tokens msg"
  by (simp add: msg_tokens_def estimate_tokens_nonneg)

lemma total_tokens_nonneg: "0 \<le> total_tokens msgs"
  by (induction msgs) (simp_all add: total_tokens_def msg_tokens_nonneg)

lemma total_tokens_append: "total_tokens (xs @ ys) = total_tokens xs + total_tokens ys"
  by (simp add: total_tokens_def)

lemma add_messages_if_fits_total:
  "total_tokens (fst s) = snd s \<Longrightarrow>
   total_tokens (fst (add_messages_if_fits msg_list r s)) = snd (add_messages_if_fits msg_list r s)"
proof (induction msg_list r s rule: add_messages_if_fits.induct)
  case (1 r acc cur)
  then show ?case by simp
next
  case (2 msg msg_list r acc cur)
  then show ?case
    by (simp add: Let_def total_tokens_append total_tokens_def)
qed

lemma add_messages_if_fits_bound:
  "snd (add_messages_if_fits msg_list r s) = snd s \<or> snd (add_messages_if_fits msg_list r s) \<le> r"
proof (induction msg_list r s rule: add_messages_if_fits.induct)
  case (1 r acc cur)
  then show ?case by simp
next
  case (2 msg msg_list r acc cur)
  define msg' where "msg' = (if gt_float_mul (msg_tokens msg) r float_0_8 then truncate_message msg else msg)"
  show ?case
  proof (cases "cur + msg_tokens msg' \<le> r")
    case True
    with 2[OF msg'_def True] show ?thesis
      by (auto simp add: Let_def msg'_def[symmetric])
  next
    case False
    then show ?thesis by (simp add: Let_def msg'_def[symmetric])
  qed
qed

lemma add_messages_if_fits_mono:
  "snd s \<le> snd (add_messages_if_fits msg_list r s)"
proof (induction msg_list r s rule: add_messages_if_fits.induct)
  case (1 r acc cur)
  then show ?case by simp
next
  case (2 msg msg_list r acc cur)
  define msg' where "msg' = (if gt_float_mul (msg_tokens msg) r float_0_8 then truncate_message msg else msg)"
  show ?case
  proof (cases "cur + msg_tokens msg' \<le> r")
    case True
    with 2[OF msg'_def True] msg_tokens_nonneg[of msg'] show ?thesis
      by (auto simp add: Let_def msg'_def[symmetric])
  next
    case False
    then show ?thesis by (simp add: Let_def msg'_def[symmetric])
  qed
qed

lemma select_messages_total:
  "total_tokens (fst (select_messages lower msgs max_tokens)) = snd (select_messages lower msgs max_tokens)"
  unfolding select_messages_def Let_def
  by (intro add_messages_if_fits_total) (simp add: total_tokens_def)

lemma select_messages_bound:
  assumes "0 \<le> max_tokens"
  shows "snd (select_messages lower msgs max_tokens) \<le> max_tokens"
proof -
  define t where "t = float_mul_trunc max_tokens TRUNCATION_RATIO"
  define s1 where "s1 = add_messages_if_fits (filter (\<lambda>msg. classify lower msg = System) msgs) t ([], 0)"
  define s2 where "s2 = add_messages_if_fits (filter (\<lambda>msg. classify lower msg = Task) msgs) (t - snd s1) s1"
  define s3 where "s3 = add_messages_if_fits (rev (filter (\<lambda>msg. classify lower msg = Other) msgs)) (t - snd s2) s2"
  have eq: "select_messages lower msgs max_tokens = s3"
    by (simp add: select_messages_def Let_def s3_def s2_def s1_def t_def)
  have t: "t \<le> max_tokens" unfolding t_def using assms by (rule target_le)
  have b1: "snd s1 = 0 \<or> snd s1 \<le> t"
    using add_messages_if_fits_bound[of "filter (\<lambda>msg. classify lower msg = System) msgs" t "([], 0)"]
    by (simp add: s1_def)
  have n1: "0 \<le> snd s1"
    using add_messages_if_fits_mono[of "([], 0)" "filter (\<lambda>msg. classify lower msg = System) msgs" t]
    by (simp add: s1_def)
  have b2: "snd s2 = snd s1 \<or> snd s2 \<le> t - snd s1"
    unfolding s2_def by (rule add_messages_if_fits_bound)
  have n2: "snd s1 \<le> snd s2" unfolding s2_def by (rule add_messages_if_fits_mono)
  have b3: "snd s3 = snd s2 \<or> snd s3 \<le> t - snd s2"
    unfolding s3_def by (rule add_messages_if_fits_bound)
  from b1 b2 b3 n1 n2 t assms have "snd s3 \<le> max_tokens" by linarith
  then show ?thesis by (simp add: eq)
qed

lemma total_tokens_insort_key:
  "total_tokens (insort_key f x xs) = msg_tokens x + total_tokens xs"
  by (induction xs) (simp_all add: total_tokens_def)

lemma total_tokens_sort_key: "total_tokens (sort_key f xs) = total_tokens xs"
  by (induction xs) (simp_all add: total_tokens_insort_key, simp add: total_tokens_def)

lemma truncate_context_budget_nonneg:
  assumes "0 \<le> budget"
  shows "total_tokens (truncate_context lower msgs (Some budget)) \<le> budget"
proof (cases "msgs = [] \<or> total_tokens msgs \<le> budget")
  case True
  then show ?thesis using assms by (auto simp add: truncate_context_def total_tokens_def)
next
  case False
  then have "truncate_context lower msgs (Some budget) =
      sort_key (index_or_len msgs) (fst (select_messages lower msgs budget))"
    by (simp add: truncate_context_def)
  then show ?thesis
    using select_messages_bound[OF assms, of lower msgs]
    by (simp add: total_tokens_sort_key select_messages_total)
qed


subsection \<open>Evaluation on the concrete conversation\<close>

lemma bit_length_numeral:
  "bit_length (numeral n) = (if (numeral n :: nat) = 0 then 0 else Suc (bit_length (numeral n div 2)))"
  "bit_length 0 = 0" "bit_length 1 = 1" "bit_length (Suc 0) = 1"
  by (simp_all add: bit_length.simps)

lemmas float_eval = float_mul_trunc_def float_mul_def float_round_def round_half_even_def Let_def
  float_0_7_def float_0_6_def float_0_8_def float_0_64_def gt_float_mul_def float_div_1_5_trunc_def
  bit_length_numeral TRUNCATION_RATIO_def

lemmas text_eval = ustr_def sublist_Cons_right prefix_code is_chinese_def get_str_def

lemma ex_msg_tokens: "msg_tokens ex_persona = 6" "msg_tokens ex_tone = 1" "msg_tokens ex_question = 4"
  by (simp_all add: msg_tokens_def estimate_tokens_def has_code_iff Let_def text_eval ex_persona_def ex_tone_def ex_question_def)

lemma ex_classify: "classify ascii_lower ex_persona = System" "classify ascii_lower ex_tone = System"
  "classify ascii_lower ex_question = Other"
  by (simp_all add: classify_def task_keywords_def ascii_lower_def text_eval ex_persona_def ex_tone_def ex_question_def)

lemma truncate_message_eval:
  "length (get_str (content msg)) = n \<Longrightarrow> float_mul_trunc (int n) float_0_6 = int k \<Longrightarrow>
   truncate_message msg = msg\<lparr>content := Some (take k (get_str (content msg)) @ truncation_marker)\<rparr>"
  by (simp add: truncate_message_def Let_def)

lemma ex_float_0_6: "float_mul_trunc 24 float_0_6 = 14" "float_mul_trunc 16 float_0_6 = 9"
  by (simp_all add: float_eval)

lemma ex_truncate_persona: "truncate_message ex_persona = ex_persona\<lparr>content := Some (ustr ''Answer briefly'' @ truncation_marker)\<rparr>"
  by (subst truncate_message_eval[where n = 24 and k = 14])
     (simp_all add: ex_float_0_6 ex_persona_def text_eval)

lemma ex_truncate_question: "truncate_message ex_question = ex_question\<lparr>content := Some (ustr ''what is t'' @ truncation_marker)\<rparr>"
  by (subst truncate_message_eval[where n = 16 and k = 9])
     (simp_all add: ex_float_0_6 ex_question_def text_eval)

lemma ex_tokens_truncated_persona: "msg_tokens (truncate_message ex_persona) = 6"
  unfolding ex_truncate_persona by (simp add: truncation_marker_def msg_tokens_def estimate_tokens_def has_code_iff text_eval ex_persona_def)

lemma ex_tokens_truncated_question: "msg_tokens (truncate_message ex_question) = 5"
  unfolding ex_truncate_question by (simp add: truncation_marker_def msg_tokens_def estimate_tokens_def has_code_iff text_eval ex_question_def)

lemma ex_target: "float_mul_trunc 10 TRUNCATION_RATIO = 7"
  by (simp add: float_eval)

lemma ex_gt: "gt_float_mul 6 7 float_0_8" "\<not> gt_float_mul 1 7 float_0_8" "gt_float_mul 4 0 float_0_8"
  by (simp_all add: float_eval)

lemma ex_distinct: "truncate_message ex_persona \<noteq> ex_persona" "truncate_message ex_persona \<noteq> ex_tone"
  "truncate_message ex_persona \<noteq> ex_question" "ex_tone \<noteq> ex_persona"
  unfolding ex_truncate_persona by (simp_all add: truncation_marker_def text_eval ex_persona_def ex_tone_def ex_question_def)

lemma ex_select: "select_messages ascii_lower [ex_persona, ex_tone, ex_question] 10 = ([truncate_message ex_persona, ex_tone], 7)"
  by (simp add: select_messages_def Let_def ex_msg_tokens ex_classify ex_tokens_truncated_persona ex_tokens_truncated_question ex_target ex_gt)

lemma ex_truncate_context: "truncate_context ascii_lower [ex_persona, ex_tone, ex_question] (Some 10) = [ex_tone, truncate_message ex_persona]"
  by (simp add: truncate_context_def total_tokens_def ex_msg_tokens ex_select ex_distinct)

section \<open>Properties of the step executor\<close>

lemma find_unexecuted_None: "find_unexecuted ss = None \<longleftrightarrow> (\<forall>s \<in> set ss. has_result s)"
  by (induction ss) auto

lemma find_unexecuted_Some:
  "find_unexecuted ss = Some i \<Longrightarrow>
     i < length ss \<and> \<not> has_result (ss ! i) \<and> (\<forall>j<i. has_result (ss ! j))"
proof (induction ss arbitrary: i)
  case Nil
  then show ?case by simp
next
  case (Cons s ss)
  show ?case
  proof (cases "has_result s")
    case False
    with Cons.prems show ?thesis by simp
  next
    case True
    with Cons.prems obtain i' where i': "find_unexecuted ss = Some i'" "i = Suc i'" by auto
    from Cons.IH[OF i'(1)] True i'(2) show ?thesis by (auto simp add: less_Suc_eq_0_disj)
  qed
qed

lemma find_unexecuted_first:
  "i < length ss \<Longrightarrow> \<not> has_result (ss ! i) \<Longrightarrow> \<forall>j<i. has_result (ss ! j) \<Longrightarrow>
     find_unexecuted ss = Some i"
proof (induction ss arbitrary: i)
  case Nil
  then show ?case by simp
next
  case (Cons s ss)
  show ?case
  proof (cases i)
    case 0
    with Cons.prems show ?thesis by simp
  next
    case (Suc i')
    with Cons.prems have "has_result s" by auto
    moreover from Cons.prems Suc have "find_unexecuted ss = Some i'"
      by (intro Cons.IH) auto
    ultimately show ?thesis using Suc by simp
  qed
qed

lemma build_agent_input_nonempty: "build_agent_input lower state agent_name cs cur \<noteq> []"
  by (simp add: build_agent_input_def rebuild_agent_input_def Let_def)

lemma invoke_success:
  "retry_count < max_retries \<Longrightarrow> agent retry_count agent_input = Inr result \<Longrightarrow>
     invoke_with_retries lower agent cur agent_input retry_count = Inr result"
  by (subst invoke_with_retries.simps) simp

lemma invoke_other_failure:
  "retry_count < max_retries \<Longrightarrow> agent retry_count agent_input = Inl e \<Longrightarrow>
   \<not> is_context_overflow lower e \<Longrightarrow>
     invoke_with_retries lower agent cur agent_input retry_count = Inl (AgentError e)"
  by (subst invoke_with_retries.simps) simp

lemma invoke_shrink_0:
  "agent 0 (m # rest) = Inl e \<Longrightarrow> is_context_overflow lower e \<Longrightarrow>
     invoke_with_retries lower agent cur (m # rest) 0
       = invoke_with_retries lower agent cur (human (shrink_content 1 (lc_content m)) # rest) 1"
  by (subst invoke_with_retries.simps) (simp add: max_retries_def)

lemma invoke_shrink_1:
  "agent 1 (m # rest) = Inl e \<Longrightarrow> is_context_overflow lower e \<Longrightarrow>
     invoke_with_retries lower agent cur (m # rest) 1
       = invoke_with_retries lower agent cur (human (shrink_content 2 (lc_content m)) # rest) 2"
  by (subst invoke_with_retries.simps) (simp add: max_retries_def numeral_2_eq_2)

lemma invoke_final:
  "agent 2 agent_input = Inl e \<Longrightarrow> is_context_overflow lower e \<Longrightarrow>
     invoke_with_retries lower agent cur agent_input 2
       = (case agent 3 [human (minimal_content cur)] of
            Inr result \<Rightarrow> Inr result
          | Inl final_e \<Rightarrow> Inr [placeholder cur])"
  by (subst invoke_with_retries.simps) (simp add: max_retries_def numeral_3_eq_3)

lemma invoke_three_overflows:
  assumes fail: "\<forall>j<3. \<forall>inp. \<exists>e. agent j inp = Inl e \<and> is_context_overflow lower e"
    and ne: "agent_input \<noteq> []"
  shows "invoke_with_retries lower agent cur agent_input 0
     = (case agent 3 [human (minimal_content cur)] of
          Inr result \<Rightarrow> Inr result
        | Inl final_e \<Rightarrow> Inr [placeholder cur])"
proof -
  from ne obtain m rest where inp: "agent_input = m # rest" by (cases agent_input) auto
  define in1 where "in1 = human (shrink_content 1 (lc_content m)) # rest"
  define in2 where "in2 = human (shrink_content 2 (lc_content (human (shrink_content 1 (lc_content m))))) # rest"
  have lt: "(0::nat) < 3" "(1::nat) < 3" "(2::nat) < 3" by simp_all
  from fail lt(1) obtain e0 where e0: "agent 0 (m # rest) = Inl e0" "is_context_overflow lower e0" by blast
  from fail lt(2) obtain e1 where e1: "agent 1 in1 = Inl e1" "is_context_overflow lower e1" by blast
  from fail lt(3) obtain e2 where e2: "agent 2 in2 = Inl e2" "is_context_overflow lower e2" by blast
  have "invoke_with_retries lower agent cur agent_input 0 = invoke_with_retries lower agent cur in1 1"
    unfolding inp in1_def using e0 by (rule invoke_shrink_0)
  also have "\<dots> = invoke_with_retries lower agent cur in2 2"
    unfolding in1_def in2_def using e1[unfolded in1_def] by (rule invoke_shrink_1)
  also have "\<dots> = (case agent 3 [human (minimal_content cur)] of
          Inr result \<Rightarrow> Inr result
        | Inl final_e \<Rightarrow> Inr [placeholder cur])"
    using e2 by (rule invoke_final)
  finally show ?thesis .
qed

lemma invoke_after_overflows:
  assumes k: "k \<le> 3"
    and fail: "\<forall>j<k. \<forall>inp. \<exists>e. agent j inp = Inl e \<and> is_context_overflow lower e"
    and ok: "\<forall>inp. agent k inp = Inr result"
    and ne: "agent_input \<noteq> []"
  shows "invoke_with_retries lower agent cur agent_input 0 = Inr result"
proof -
  from ne obtain m rest where inp: "agent_input = m # rest" by (cases agent_input) auto
  define in1 where "in1 = human (shrink_content 1 (lc_content m)) # rest"
  define in2 where "in2 = human (shrink_content 2 (lc_content (human (shrink_content 1 (lc_content m))))) # rest"
  have s0: "invoke_with_retries lower agent cur agent_input 0 = invoke_with_retries lower agent cur in1 1"
    if "0 < k"
  proof -
    from fail that obtain e where e: "agent 0 (m # rest) = Inl e" "is_context_overflow lower e" by blast
    show ?thesis unfolding inp in1_def using e by (rule invoke_shrink_0)
  qed
  have s1: "invoke_with_retries lower agent cur in1 1 = invoke_with_retries lower agent cur in2 2"
    if "1 < k"
  proof -
    from fail that obtain e where e: "agent 1 in1 = Inl e" "is_context_overflow lower e" by blast
    show ?thesis unfolding in1_def in2_def using e[unfolded in1_def] by (rule invoke_shrink_1)
  qed
  consider "k = 0" | "k = 1" | "k = 2" | "k = 3" using k by linarith
  then show ?thesis
  proof cases
    case 1
    then show ?thesis using ok invoke_success[of 0 agent agent_input result] by (simp add: max_retries_def)
  next
    case 2
    then show ?thesis using s0 ok invoke_success[of 1 agent in1 result] by (simp add: max_retries_def)
  next
    case 3
    then show ?thesis using s0 s1 ok invoke_success[of 2 agent in2 result] by (simp add: max_retries_def)
  next
    case 4
    with fail have "\<forall>j<3. \<forall>inp. \<exists>e. agent j inp = Inl e \<and> is_context_overflow lower e" by simp
    from invoke_three_overflows[OF this ne, of cur] ok 4 show ?thesis by simp
  qed
qed

lemma invoke_all_fail:
  assumes fail: "\<forall>j<3. \<forall>inp. \<exists>e. agent j inp = Inl e \<and> is_context_overflow lower e"
    and final: "\<forall>inp. \<exists>e. agent 3 inp = Inl e"
    and ne: "agent_input \<noteq> []"
  shows "invoke_with_retries lower agent cur agent_input 0 = Inr [placeholder cur]"
proof -
  from final obtain e3 where e3: "agent 3 [human (minimal_content cur)] = Inl e3" by blast
  with invoke_three_overflows[OF fail ne, of cur] show ?thesis by simp
qed

lemma execute_agent_step_unfold:
  assumes "current_plan state = Some (PlanObject p)"
    and "i < length (steps p)" and "\<not> has_result (steps p ! i)" and "\<forall>j<i. has_result (steps p ! j)"
    and "invoke_with_retries lower agent (steps p ! i)
           (build_agent_input lower state agent_name (take i (steps p)) (steps p ! i)) 0 = Inr result"
    and "result \<noteq> []"
  shows "execute_agent_step lower agent agent_name state
     = Inr (state\<lparr>current_plan :=
                 Some (PlanObject (p\<lparr>steps := (steps p)[i := (steps p ! i)\<lparr>execution_res := Some (last result)\<rparr>]\<rparr>))\<rparr>,
            \<lparr>goto = research_team,
             update_messages = Some [\<lparr>lc_class = HumanMessage, lc_content = last result,
                                      lc_name = Some agent_name\<rparr>],
             update_current_plan = None, update_plan_iterations = None, update_locale = None,
             update_observations = Some (get_observations state @ [last result])\<rparr>)"
  using assms find_unexecuted_first[of i "steps p"]
  by (simp add: execute_agent_step_def Let_def Command_def)

lemma last_n_idem: "last_n n (last_n n xs) = last_n n xs"
  by (simp add: last_n_def)

lemma length_last_n: "length (last_n n xs) \<le> n"
  by (simp add: last_n_def)

lemma last_n_Nil_iff: "0 < n \<Longrightarrow> last_n n xs = [] \<longleftrightarrow> xs = []"
  by (cases xs) (auto simp add: last_n_def)

lemma observations_part_last_n: "observations_part (last_n 3 obs) = observations_part obs"
  by (simp add: observations_part_def last_n_idem last_n_Nil_iff)

lemma length_state_message_part: "length (state_message_part m) \<le> 1"
  by (cases m) (simp_all add: state_message_part_def)

lemma length_concat_state_message_part:
  "length (concat (map state_message_part ms)) \<le> length ms"
proof (induction ms)
  case Nil
  then show ?case by simp
next
  case (Cons m ms)
  with length_state_message_part[of m] show ?case by simp
qed

lemma type_literals:
  "ustr ''completed_steps'' \<noteq> ustr ''state_message''" "ustr ''current_task'' \<noteq> ustr ''state_message''"
  "ustr ''observations'' \<noteq> ustr ''state_message''" "ustr ''completed_steps'' \<noteq> ustr ''observations''"
  "ustr ''current_task'' \<noteq> ustr ''observations''" "ustr ''state_message'' \<noteq> ustr ''observations''"
  by (simp_all add: ustr_def)

lemma filter_state_message_part:
  "filter (\<lambda>msg. type msg = Some (ustr ''observations'')) (concat (map state_message_part ms)) = []"
  by (induction ms) (auto simp add: state_message_part_def type_literals split: state_message.splits)

lemma length_observations_part: "length (observations_part obs) \<le> 1"
  by (simp add: observations_part_def Let_def)

lemma filter_observations_part:
  "filter (\<lambda>msg. type msg = Some (ustr ''state_message'')) (observations_part obs) = []"
  by (simp add: observations_part_def Let_def type_literals)


lemma ex_run_facts:
  "current_plan ex_run_state = Some (PlanObject ex_run_plan)"
  "Suc 0 < length (steps ex_run_plan)"
  "\<not> has_result (steps ex_run_plan ! Suc 0)"
  "\<forall>j<Suc 0. has_result (steps ex_run_plan ! j)"
  "steps ex_run_plan ! Suc 0 = ex_step_model"
  "get_observations ex_run_state = [ustr ''3 tables'']"
  "\<not> has_result ex_step_model"
  "has_result (steps ex_run_plan ! 0)"
  by (simp_all add: ex_run_state_def ex_run_plan_def has_result_def ex_step_survey_def ex_step_model_def
      get_observations_def ustr_def)

lemma ex_overflow: "is_context_overflow ascii_lower (ustr ''context_length_exceeded'')"
  by (simp add: is_context_overflow_def ascii_lower_def ustr_def)

lemma ex_state_after_eq:
  "ex_run_state\<lparr>current_plan :=
      Some (PlanObject (ex_run_plan\<lparr>steps := (steps ex_run_plan)[Suc 0 := ex_step_model\<lparr>execution_res := Some r\<rparr>]\<rparr>))\<rparr>
   = ex_state_after r"
  by (simp add: ex_state_after_def ex_run_plan_def)

lemma ex_run_ok:
  "execute_agent_step ascii_lower ex_agent_ok (ustr ''coder'') ex_run_state
     = Inr (ex_state_after (ustr ''fitted''), ex_command_after (ustr ''fitted''))"
proof -
  have "invoke_with_retries ascii_lower ex_agent_ok (steps ex_run_plan ! Suc 0)
          (build_agent_input ascii_lower ex_run_state (ustr ''coder'') (take (Suc 0) (steps ex_run_plan))
             (steps ex_run_plan ! Suc 0)) 0 = Inr [ustr ''fitted'']"
    by (rule invoke_success) (simp_all add: max_retries_def ex_agent_ok_def)
  from execute_agent_step_unfold[OF ex_run_facts(1) ex_run_facts(2) ex_run_facts(3) ex_run_facts(4) this]
  show ?thesis
    by (simp add: ex_run_facts ex_state_after_eq ex_command_after_def)
qed

section \<open>Claims about the token estimator and the context window manager\<close>

lemma length_filter_compl:
  "length t - length (filter P t) = length (filter (\<lambda>c. \<not> P c) t)"
  using sum_length_filter_compl[of P t] by simp

text \<open>
  Claim C8.  The token estimator returns a non-negative integer; the empty text costs 0;
  a text that contains a code fence or one of the keywords \<open>def\<close> and \<open>class\<close> (each
  followed by a space) costs a third of its length; any other text with more CJK than
  non-CJK characters costs its length divided by one and a half; every other text costs
  a quarter of its length.  The estimator is a function of the text alone.
\<close>

theorem estimate_tokens_contract:
  "0 \<le> estimate_tokens t
   \<and> estimate_tokens [] = 0
   \<and> (sublist (ustr ''```'') t \<or> sublist (ustr ''def '') t \<or> sublist (ustr ''class '') t
        \<longrightarrow> estimate_tokens t = int (length t) div 3)
   \<and> (\<not> (sublist (ustr ''```'') t \<or> sublist (ustr ''def '') t \<or> sublist (ustr ''class '') t)
        \<and> length (filter (\<lambda>c. \<not> is_chinese c) t) < length (filter is_chinese t)
        \<and> length t < 2 ^ 52
        \<longrightarrow> estimate_tokens t = 2 * int (length t) div 3)
   \<and> (\<not> (sublist (ustr ''```'') t \<or> sublist (ustr ''def '') t \<or> sublist (ustr ''class '') t)
        \<and> length (filter is_chinese t) \<le> length (filter (\<lambda>c. \<not> is_chinese c) t)
        \<longrightarrow> estimate_tokens t = int (length t) div 4)"
proof -
  have code: "has_code t \<Longrightarrow> estimate_tokens t = int (length t) div 3"
    by (cases "t = []") (simp_all add: estimate_tokens_def Let_def)
  have cjk: "estimate_tokens t = 2 * int (length t) div 3"
    if "\<not> has_code t" "length (filter (\<lambda>c. \<not> is_chinese c) t) < length (filter is_chinese t)"
      "length t < 2 ^ 52"
  proof -
    from that(2) have "t \<noteq> []" by auto
    with that show ?thesis
      by (simp add: estimate_tokens_def Let_def length_filter_compl float_div_1_5_trunc_eq zdiv_int)
  qed
  have other: "estimate_tokens t = int (length t) div 4"
    if "\<not> has_code t" "length (filter is_chinese t) \<le> length (filter (\<lambda>c. \<not> is_chinese c) t)"
    using that by (cases "t = []") (simp_all add: estimate_tokens_def Let_def length_filter_compl)
  show ?thesis
    using code cjk other estimate_tokens_nonneg[of t]
    by (simp add: has_code_iff[symmetric]) (simp add: estimate_tokens_def)
qed

theorem estimate_tokens_contract_witness:
  "sublist (ustr ''def '') (ustr ''def f(): pass'')
   \<and> estimate_tokens (ustr ''def f(): pass'') = 4
   \<and> length (filter (\<lambda>c. \<not> is_chinese c) [0x7576, 0x524d, 0x4efb, 0x52d9])
       < length (filter is_chinese [0x7576, 0x524d, 0x4efb, 0x52d9])
   \<and> estimate_tokens [0x7576, 0x524d, 0x4efb, 0x52d9] = 2
   \<and> length (filter is_chinese (ustr ''hello world''))
       \<le> length (filter (\<lambda>c. \<not> is_chinese c) (ustr ''hello world''))
   \<and> estimate_tokens (ustr ''hello world'') = 2"
  using estimate_tokens_contract[of "ustr ''def f(): pass''"]
    estimate_tokens_contract[of "[0x7576, 0x524d, 0x4efb, 0x52d9]"]
    estimate_tokens_contract[of "ustr ''hello world''"]
  by (simp add: text_eval)

text \<open>
  Claim C2.  When the estimated cost of the messages is at most the budget, truncation
  returns the list unchanged, and so truncating twice with that budget is the same as
  truncating once.
\<close>

theorem truncate_context_idempotent:
  "total_tokens msgs \<le> budget \<Longrightarrow>
     truncate_context lower msgs (Some budget) = msgs
     \<and> truncate_context lower (truncate_context lower msgs (Some budget)) (Some budget)
         = truncate_context lower msgs (Some budget)"
  by (simp add: truncate_context_def)

theorem truncate_context_idempotent_witness:
  "total_tokens [ex_persona, ex_tone, ex_question] \<le> 11
   \<and> truncate_context ascii_lower [ex_persona, ex_tone, ex_question] (Some 11)
       = [ex_persona, ex_tone, ex_question]
   \<and> truncate_context ascii_lower
         (truncate_context ascii_lower [ex_persona, ex_tone, ex_question] (Some 11)) (Some 11)
       = truncate_context ascii_lower [ex_persona, ex_tone, ex_question] (Some 11)"
proof -
  have h: "total_tokens [ex_persona, ex_tone, ex_question] \<le> 11"
    by (simp add: total_tokens_def ex_msg_tokens)
  show ?thesis
    using h truncate_context_idempotent[OF h, of ascii_lower] by simp
qed

text \<open>
  Claim C1.  When the budget is at least the estimated cost of the cheapest message of
  the list, the list that truncation returns has an estimated cost of at most the
  budget; the cost counts a message whose content was cut at the cost of the cut
  content.
\<close>

theorem truncate_context_budget:
  "\<exists>msg \<in> set msgs. msg_tokens msg \<le> budget \<Longrightarrow>
     total_tokens (truncate_context lower msgs (Some budget)) \<le> budget"
proof -
  assume "\<exists>msg \<in> set msgs. msg_tokens msg \<le> budget"
  then obtain msg where "msg_tokens msg \<le> budget" by blast
  with msg_tokens_nonneg[of msg] have "0 \<le> budget" by linarith
  then show ?thesis by (rule truncate_context_budget_nonneg)
qed

theorem truncate_context_budget_witness:
  "(\<exists>msg \<in> set [ex_persona, ex_tone, ex_question]. msg_tokens msg \<le> 10)
   \<and> total_tokens [ex_persona, ex_tone, ex_question] = 11
   \<and> total_tokens (truncate_context ascii_lower [ex_persona, ex_tone, ex_question] (Some 10)) = 7"
proof -
  have h: "\<exists>msg \<in> set [ex_persona, ex_tone, ex_question]. msg_tokens msg \<le> 10"
    by (simp add: ex_msg_tokens)
  show ?thesis
    using h truncate_context_budget[OF h, of ascii_lower]
    by (simp add: total_tokens_def ex_msg_tokens ex_truncate_context ex_tokens_truncated_persona)
qed

text \<open>
  Claim C3.  The claim is that the accepted messages come back in the order they had in
  the input, the messages that were cut included.  On the conversation above, with a
  budget of 10 tokens, the first system message is cut and accepted, the second system
  message is accepted as it is, and the user message is dropped.  The final sort looks
  every accepted message up in the input; the cut message is a new dict that is not in
  the input, so its key is the length of the input, and it is returned after the second
  system message although it stood before it.
\<close>

theorem truncate_context_order_failure:
  "truncate_context ascii_lower [ex_persona, ex_tone, ex_question] (Some 10)
     = [ex_tone, ex_persona\<lparr>content := Some (ustr ''Answer briefly'' @ truncation_marker)\<rparr>]"
  by (simp add: ex_truncate_context ex_truncate_persona)

section \<open>Claims about the planner and the human feedback node\<close>

lemma accept_plan_auto:
  "accept_plan repair loads validate (state\<lparr>auto_accepted_plan := b\<rparr>) = accept_plan repair loads validate state"
  by (simp add: accept_plan_def get_plan_iterations_def)

text \<open>
  Claim C5.  When the plan is not accepted automatically, the node reads the decision
  the run is resumed with.  A decision whose upper-case form starts with \<open>[EDIT_PLAN]\<close>
  routes to the planner, and the update holds the feedback as one new human (user)
  message; one that starts with \<open>[ACCEPTED]\<close> does exactly what the node does when the
  plan is accepted automatically; any other decision, the empty one included, raises
  and yields no command.  (\<open>str.upper\<close> maps the empty string to itself.)
\<close>

theorem human_feedback_decision:
  "\<not> (case auto_accepted_plan state of None \<Rightarrow> False | Some b \<Rightarrow> b) \<Longrightarrow> upper [] = [] \<Longrightarrow>
   (prefix (ustr ''[EDIT_PLAN]'') (upper feedback) \<longrightarrow>
      human_feedback_node upper repair loads validate state feedback
        = Inr \<lparr>goto = planner,
               update_messages = Some [\<lparr>lc_class = HumanMessage, lc_content = feedback,
                                        lc_name = Some (ustr ''feedback'')\<rparr>],
               update_current_plan = None, update_plan_iterations = None, update_locale = None,
               update_observations = None\<rparr>)
   \<and> (prefix (ustr ''[ACCEPTED]'') (upper feedback) \<longrightarrow>
      human_feedback_node upper repair loads validate state feedback
        = human_feedback_node upper repair loads validate (state\<lparr>auto_accepted_plan := Some True\<rparr>) feedback)
   \<and> (\<not> prefix (ustr ''[EDIT_PLAN]'') (upper feedback) \<and> \<not> prefix (ustr ''[ACCEPTED]'') (upper feedback) \<longrightarrow>
      human_feedback_node upper repair loads validate state feedback = Inl TypeError)"
proof -
  assume auto: "\<not> (case auto_accepted_plan state of None \<Rightarrow> False | Some b \<Rightarrow> b)" and up: "upper [] = []"
  have ne: "feedback \<noteq> []" if "prefix (ustr ''[EDIT_PLAN]'') (upper feedback) \<or> prefix (ustr ''[ACCEPTED]'') (upper feedback)"
    using that up by (auto simp add: ustr_def)
  have excl: "\<not> prefix (ustr ''[EDIT_PLAN]'') (upper feedback)" if "prefix (ustr ''[ACCEPTED]'') (upper feedback)"
    using that by (auto simp add: ustr_def prefix_def)
  show ?thesis
    using auto ne excl
    by (auto simp add: human_feedback_node_def Command_def accept_plan_auto)
qed

lemma ex_upper:
  "ascii_upper (ustr ''[edit_plan] shorten scope'') = ustr ''[EDIT_PLAN] SHORTEN SCOPE''"
  "ascii_upper (ustr ''[Accepted]'') = ustr ''[ACCEPTED]''"
  "ascii_upper (ustr ''banana'') = ustr ''BANANA''"
  by (simp_all add: ascii_upper_def ustr_def)

lemma ex_accept_plan:
  "accept_plan ex_repair ex_loads ex_validate ex_review_state
     = Inr \<lparr>goto = reporter, update_messages = None, update_current_plan = Some (PlanObject ex_plan),
            update_plan_iterations = Some 1, update_locale = Some (JString (ustr ''en-US'')),
            update_observations = None\<rparr>"
proof -
  have 1: "subscript ex_plan_json (ustr ''has_enough_context'') = Inr (JBool True)"
    "subscript ex_plan_json (ustr ''locale'') = Inr (JString (ustr ''en-US''))"
    by (simp_all add: ex_plan_json_def ustr_def)
  show ?thesis
    by (simp add: accept_plan_def ex_review_state_def get_plan_iterations_def ex_repair_def
        ex_loads_def ex_validate_def 1 Command_def)
qed

theorem human_feedback_decision_witness:
  "\<not> (case auto_accepted_plan ex_review_state of None \<Rightarrow> False | Some b \<Rightarrow> b)
   \<and> ascii_upper [] = []
   \<and> human_feedback_node ascii_upper ex_repair ex_loads ex_validate ex_review_state
        (ustr ''[edit_plan] shorten scope'')
      = Inr \<lparr>goto = planner,
             update_messages = Some [\<lparr>lc_class = HumanMessage, lc_content = ustr ''[edit_plan] shorten scope'',
                                      lc_name = Some (ustr ''feedback'')\<rparr>],
             update_current_plan = None, update_plan_iterations = None, update_locale = None,
             update_observations = None\<rparr>
   \<and> human_feedback_node ascii_upper ex_repair ex_loads ex_validate ex_review_state (ustr ''[Accepted]'')
      = Inr \<lparr>goto = reporter, update_messages = None, update_current_plan = Some (PlanObject ex_plan),
             update_plan_iterations = Some 1, update_locale = Some (JString (ustr ''en-US'')),
             update_observations = None\<rparr>
   \<and> human_feedback_node ascii_upper ex_repair ex_loads ex_validate ex_review_state (ustr ''banana'')
      = Inl TypeError
   \<and> human_feedback_node ascii_upper ex_repair ex_loads ex_validate ex_review_state [] = Inl TypeError"
proof -
  have h1: "\<not> (case auto_accepted_plan ex_review_state of None \<Rightarrow> False | Some b \<Rightarrow> b)"
    by (simp add: ex_review_state_def)
  have h2: "ascii_upper [] = []" by (simp add: ascii_upper_def)
  have auto: "human_feedback_node ascii_upper ex_repair ex_loads ex_validate
                (ex_review_state\<lparr>auto_accepted_plan := Some True\<rparr>) (ustr ''[Accepted]'')
              = accept_plan ex_repair ex_loads ex_validate ex_review_state"
    by (simp add: human_feedback_node_def accept_plan_auto)
  have p: "prefix (ustr ''[EDIT_PLAN]'') (ustr ''[EDIT_PLAN] SHORTEN SCOPE'')"
    "prefix (ustr ''[ACCEPTED]'') (ustr ''[ACCEPTED]'')"
    "\<not> prefix (ustr ''[EDIT_PLAN]'') (ustr ''BANANA'')" "\<not> prefix (ustr ''[ACCEPTED]'') (ustr ''BANANA'')"
    "\<not> prefix (ustr ''[EDIT_PLAN]'') []" "\<not> prefix (ustr ''[ACCEPTED]'') []"
    by (simp_all add: ustr_def)
  note dec = human_feedback_decision[where upper = ascii_upper and state = ex_review_state
      and repair = ex_repair and loads = ex_loads and validate = ex_validate, OF h1 h2]
  have e1: "human_feedback_node ascii_upper ex_repair ex_loads ex_validate ex_review_state
        (ustr ''[edit_plan] shorten scope'')
      = Inr \<lparr>goto = planner,
             update_messages = Some [\<lparr>lc_class = HumanMessage, lc_content = ustr ''[edit_plan] shorten scope'',
                                      lc_name = Some (ustr ''feedback'')\<rparr>],
             update_current_plan = None, update_plan_iterations = None, update_locale = None,
             update_observations = None\<rparr>"
    using dec[of "ustr ''[edit_plan] shorten scope''"] by (simp add: ex_upper p)
  have e2: "human_feedback_node ascii_upper ex_repair ex_loads ex_validate ex_review_state (ustr ''[Accepted]'')
      = Inr \<lparr>goto = reporter, update_messages = None, update_current_plan = Some (PlanObject ex_plan),
             update_plan_iterations = Some 1, update_locale = Some (JString (ustr ''en-US'')),
             update_observations = None\<rparr>"
    using dec[of "ustr ''[Accepted]''"] by (simp add: ex_upper p auto ex_accept_plan)
  have e3: "human_feedback_node ascii_upper ex_repair ex_loads ex_validate ex_review_state (ustr ''banana'')
      = Inl TypeError"
    using dec[of "ustr ''banana''"] by (simp add: ex_upper p)
  have e4: "human_feedback_node ascii_upper ex_repair ex_loads ex_validate ex_review_state [] = Inl TypeError"
    using dec[of "[]"] by (simp add: h2 ustr_def)
  show ?thesis using h1 h2 e1 e2 e3 e4 by simp
qed

text \<open>
  Claim C6.  On the first planner pass (no plan iteration yet, and at least one
  allowed), when the response parses to an object whose \<open>has_enough_context\<close> is true and
  the object validates as a plan, the planner goes to the reporter; the update stores
  the validated plan as \<open>current_plan\<close> and the response as an AI message, and it has no
  entry for \<open>plan_iterations\<close>, which therefore stays at 0.
\<close>

theorem planner_enough_context:
  "get_plan_iterations state = 0 \<Longrightarrow> 0 < max_plan_iterations \<Longrightarrow>
   repair (PlanText full_response) = Inr repaired \<Longrightarrow> loads repaired = Some (JObject items) \<Longrightarrow>
   map_of items (ustr ''has_enough_context'') = Some (JBool True) \<Longrightarrow>
   validate (JObject items) = Some new_plan \<Longrightarrow>
   planner_node repair loads validate max_plan_iterations state full_response
     = Inr \<lparr>goto = reporter,
            update_messages = Some [\<lparr>lc_class = AIMessage, lc_content = full_response,
                                     lc_name = Some (ustr ''planner'')\<rparr>],
            update_current_plan = Some (PlanObject new_plan),
            update_plan_iterations = None, update_locale = None, update_observations = None\<rparr>"
  by (simp add: planner_node_def Command_def planner_message_def)

theorem planner_enough_context_witness:
  "get_plan_iterations ex_fresh_state = 0 \<and> (0::int) < 1
   \<and> ex_repair (PlanText ex_response) = Inr ex_response
   \<and> ex_loads ex_response = Some ex_plan_json
   \<and> ex_validate ex_plan_json = Some ex_plan
   \<and> planner_node ex_repair ex_loads ex_validate 1 ex_fresh_state ex_response
     = Inr \<lparr>goto = reporter,
            update_messages = Some [\<lparr>lc_class = AIMessage, lc_content = ex_response,
                                     lc_name = Some (ustr ''planner'')\<rparr>],
            update_current_plan = Some (PlanObject ex_plan),
            update_plan_iterations = None, update_locale = None, update_observations = None\<rparr>"
proof -
  have h1: "get_plan_iterations ex_fresh_state = 0" by (simp add: get_plan_iterations_def ex_fresh_state_def)
  have h2: "(0::int) < 1" by simp
  have h3: "ex_repair (PlanText ex_response) = Inr ex_response" by (simp add: ex_repair_def)
  have h4: "ex_loads ex_response = Some (JObject [(ustr ''locale'', JString (ustr ''en-US'')), (ustr ''has_enough_context'', JBool True),
              (ustr ''thought'', JString (ustr ''known'')), (ustr ''title'', JString (ustr ''Tides'')),
              (ustr ''steps'', JArray [])])"
    by (simp add: ex_loads_def ex_plan_json_def)
  have h5: "map_of [(ustr ''locale'', JString (ustr ''en-US'')), (ustr ''has_enough_context'', JBool True),
              (ustr ''thought'', JString (ustr ''known'')), (ustr ''title'', JString (ustr ''Tides'')),
              (ustr ''steps'', JArray [])] (ustr ''has_enough_context'') = Some (JBool True)"
    by (simp add: ustr_def)
  have h6: "ex_validate (JObject [(ustr ''locale'', JString (ustr ''en-US'')), (ustr ''has_enough_context'', JBool True),
              (ustr ''thought'', JString (ustr ''known'')), (ustr ''title'', JString (ustr ''Tides'')),
              (ustr ''steps'', JArray [])]) = Some ex_plan"
    by (simp add: ex_validate_def ex_plan_json_def)
  show ?thesis
    using h1 h3 planner_enough_context[where state = ex_fresh_state and max_plan_iterations = 1
        and repair = ex_repair and loads = ex_loads and validate = ex_validate
        and full_response = ex_response, OF h1 h2 h3 h4 h5 h6]
    by (simp add: ex_loads_def ex_validate_def)
qed

section \<open>Claims about the step executor\<close>

text \<open>
  Claim C7.  A step counts as executed when its result is neither missing nor empty.
  Given a state that holds a plan: if every step is executed, the executor returns the
  state as it is with a bare command to the research team; otherwise there is exactly
  one position, that of the first step in the order of the plan that is not executed,
  and a call that returns has set the result of the step at that position and of no
  other, and goes back to the research team.  (A call that raises returns no state.)
\<close>

theorem execute_agent_step_single_claim:
  "current_plan state = Some (PlanObject p) \<Longrightarrow>
   (if \<forall>s \<in> set (steps p). has_result s
    then execute_agent_step lower agent agent_name state
           = Inr (state, \<lparr>goto = research_team, update_messages = None, update_current_plan = None,
                          update_plan_iterations = None, update_locale = None,
                          update_observations = None\<rparr>)
    else \<exists>i<length (steps p).
           \<not> has_result (steps p ! i) \<and> (\<forall>j<i. has_result (steps p ! j))
           \<and> (case execute_agent_step lower agent agent_name state of
                Inl e \<Rightarrow> True
              | Inr (state', cmd) \<Rightarrow>
                  goto cmd = research_team
                  \<and> (\<exists>r. state' = state\<lparr>current_plan :=
                        Some (PlanObject (p\<lparr>steps := (steps p)[i := (steps p ! i)\<lparr>execution_res := Some r\<rparr>]\<rparr>))\<rparr>)))"
proof -
  assume plan: "current_plan state = Some (PlanObject p)"
  show ?thesis
  proof (cases "find_unexecuted (steps p)")
    case None
    then have "\<forall>s \<in> set (steps p). has_result s" by (simp add: find_unexecuted_None)
    with plan None show ?thesis by (simp add: execute_agent_step_def Command_def)
  next
    case (Some i)
    from find_unexecuted_Some[OF Some]
    have i: "i < length (steps p)" "\<not> has_result (steps p ! i)" "\<forall>j<i. has_result (steps p ! j)"
      by auto
    then have "\<not> (\<forall>s \<in> set (steps p). has_result s)" using nth_mem by blast
    moreover have "case execute_agent_step lower agent agent_name state of
                Inl e \<Rightarrow> True
              | Inr (state', cmd) \<Rightarrow>
                  goto cmd = research_team
                  \<and> (\<exists>r. state' = state\<lparr>current_plan :=
                        Some (PlanObject (p\<lparr>steps := (steps p)[i := (steps p ! i)\<lparr>execution_res := Some r\<rparr>]\<rparr>))\<rparr>)"
      using plan Some
      by (auto simp add: execute_agent_step_def Let_def Command_def split: sum.splits)
    ultimately show ?thesis using i by auto
  qed
qed


theorem execute_agent_step_single_claim_witness:
  "current_plan ex_run_state = Some (PlanObject ex_run_plan)
   \<and> \<not> has_result (steps ex_run_plan ! Suc 0) \<and> has_result (steps ex_run_plan ! 0)
   \<and> (\<exists>i<length (steps ex_run_plan).
         \<not> has_result (steps ex_run_plan ! i) \<and> (\<forall>j<i. has_result (steps ex_run_plan ! j))
         \<and> (case execute_agent_step ascii_lower ex_agent_ok (ustr ''coder'') ex_run_state of
              Inl e \<Rightarrow> True
            | Inr (state', cmd) \<Rightarrow>
                goto cmd = research_team
                \<and> (\<exists>r. state' = ex_run_state\<lparr>current_plan :=
                      Some (PlanObject (ex_run_plan\<lparr>steps := (steps ex_run_plan)[i := (steps ex_run_plan ! i)\<lparr>execution_res := Some r\<rparr>]\<rparr>))\<rparr>)))
   \<and> execute_agent_step ascii_lower ex_agent_ok (ustr ''coder'') ex_run_state
       = Inr (ex_state_after (ustr ''fitted''), ex_command_after (ustr ''fitted''))
   \<and> execute_agent_step ascii_lower ex_agent_ok (ustr ''coder'') (ex_state_after (ustr ''fitted''))
       = Inr (ex_state_after (ustr ''fitted''),
              \<lparr>goto = research_team, update_messages = None, update_current_plan = None,
               update_plan_iterations = None, update_locale = None, update_observations = None\<rparr>)"
proof -
  have h: "current_plan ex_run_state = Some (PlanObject ex_run_plan)" by (rule ex_run_facts(1))
  have n: "\<not> (\<forall>s \<in> set (steps ex_run_plan). has_result s)"
    by (simp add: ex_run_plan_def has_result_def ex_step_model_def)
  have first: "\<exists>i<length (steps ex_run_plan).
         \<not> has_result (steps ex_run_plan ! i) \<and> (\<forall>j<i. has_result (steps ex_run_plan ! j))
         \<and> (case execute_agent_step ascii_lower ex_agent_ok (ustr ''coder'') ex_run_state of
              Inl e \<Rightarrow> True
            | Inr (state', cmd) \<Rightarrow>
                goto cmd = research_team
                \<and> (\<exists>r. state' = ex_run_state\<lparr>current_plan :=
                      Some (PlanObject (ex_run_plan\<lparr>steps := (steps ex_run_plan)[i := (steps ex_run_plan ! i)\<lparr>execution_res := Some r\<rparr>]\<rparr>))\<rparr>))"
    using execute_agent_step_single_claim[OF h, of ascii_lower ex_agent_ok "ustr ''coder''"] n
    by simp
  define done_plan where
    "done_plan = ex_run_plan\<lparr>steps := [ex_step_survey, ex_step_model\<lparr>execution_res := Some (ustr ''fitted'')\<rparr>]\<rparr>"
  have h': "current_plan (ex_state_after (ustr ''fitted'')) = Some (PlanObject done_plan)"
    by (simp add: ex_state_after_def done_plan_def)
  have all: "\<forall>s \<in> set (steps done_plan). has_result s"
    by (simp add: done_plan_def has_result_def ex_step_survey_def ustr_def)
  have no_work: "execute_agent_step ascii_lower ex_agent_ok (ustr ''coder'') (ex_state_after (ustr ''fitted''))
       = Inr (ex_state_after (ustr ''fitted''),
              \<lparr>goto = research_team, update_messages = None, update_current_plan = None,
               update_plan_iterations = None, update_locale = None, update_observations = None\<rparr>)"
    using execute_agent_step_single_claim[OF h', of ascii_lower ex_agent_ok "ustr ''coder''"] all
    by simp
  note facts = h ex_run_facts(3) ex_run_facts(8) first ex_run_ok no_work
  show ?thesis by (intro conjI) (rule facts)+
qed

text \<open>
  Claim C9, as amended.  When a call of the agent succeeds, at once or after up to three
  calls that overflowed the context, the executor writes the content of the last message
  of the result into the claimed step, returns the observations with that text appended
  as one more entry, and goes back to the research team; the message it adds to the
  state's messages is a human (user) message that carries the same text and is named
  after the agent.
\<close>

theorem execute_agent_step_success:
  "current_plan state = Some (PlanObject p) \<Longrightarrow>
   i < length (steps p) \<Longrightarrow> \<not> has_result (steps p ! i) \<Longrightarrow> \<forall>j<i. has_result (steps p ! j) \<Longrightarrow>
   k \<le> 3 \<Longrightarrow> \<forall>j<k. \<forall>inp. \<exists>e. agent j inp = Inl e \<and> is_context_overflow lower e \<Longrightarrow>
   \<forall>inp. agent k inp = Inr result \<Longrightarrow> result \<noteq> [] \<Longrightarrow>
   execute_agent_step lower agent agent_name state
     = Inr (state\<lparr>current_plan :=
                 Some (PlanObject (p\<lparr>steps := (steps p)[i := (steps p ! i)\<lparr>execution_res := Some (last result)\<rparr>]\<rparr>))\<rparr>,
            \<lparr>goto = research_team,
             update_messages = Some [\<lparr>lc_class = HumanMessage, lc_content = last result,
                                      lc_name = Some agent_name\<rparr>],
             update_current_plan = None, update_plan_iterations = None, update_locale = None,
             update_observations = Some (get_observations state @ [last result])\<rparr>)"
  by (rule execute_agent_step_unfold)
     (simp_all add: invoke_after_overflows build_agent_input_nonempty)

theorem execute_agent_step_success_witness:
  "current_plan ex_run_state = Some (PlanObject ex_run_plan)
   \<and> Suc 0 < length (steps ex_run_plan) \<and> \<not> has_result (steps ex_run_plan ! Suc 0)
   \<and> has_result (steps ex_run_plan ! 0)
   \<and> (\<forall>inp. ex_agent_ok 0 inp = Inr [ustr ''fitted''])
   \<and> execute_agent_step ascii_lower ex_agent_ok (ustr ''coder'') ex_run_state
       = Inr (ex_state_after (ustr ''fitted''), ex_command_after (ustr ''fitted''))"
proof -
  have ok: "\<forall>inp. ex_agent_ok 0 inp = Inr [ustr ''fitted'']" by (simp add: ex_agent_ok_def)
  have none: "\<forall>j<(0::nat). \<forall>inp. \<exists>e. ex_agent_ok j inp = Inl e \<and> is_context_overflow ascii_lower e"
    by simp
  have ne: "[ustr ''fitted''] \<noteq> []" by simp
  have k: "(0::nat) \<le> 3" by simp
  from execute_agent_step_success[where lower = ascii_lower and agent = ex_agent_ok
      and agent_name = "ustr ''coder''" and k = 0,
      OF ex_run_facts(1) ex_run_facts(2) ex_run_facts(3) ex_run_facts(4) k none ok ne]
  show ?thesis
    using ok by (simp add: ex_run_facts ex_state_after_eq ex_command_after_def)
qed


text \<open>
  Claim C9 as stated says that the added message is tagged as coming from the assistant.
  On the run above the added message is a human message, not an AI message.
\<close>

theorem step_message_not_assistant:
  "execute_agent_step ascii_lower ex_agent_ok (ustr ''coder'') ex_run_state
       = Inr (ex_state_after (ustr ''fitted''), ex_command_after (ustr ''fitted''))
   \<and> update_messages (ex_command_after (ustr ''fitted''))
       = Some [\<lparr>lc_class = HumanMessage, lc_content = ustr ''fitted'', lc_name = Some (ustr ''coder'')\<rparr>]
   \<and> HumanMessage \<noteq> AIMessage"
  using ex_run_ok by (simp add: ex_command_after_def)

text \<open>
  Claim C4, as amended.  The executor calls the agent up to four times: with the
  assembled input, twice more with a shrunk first message, and a last time with the
  minimal content.  When the first three calls raise a context-length failure and the
  fourth call raises anything, the executor does not raise: it records the placeholder
  text as the result of the claimed step and as a new observation, and goes back to the
  research team.
\<close>

theorem execute_agent_step_degrades:
  "current_plan state = Some (PlanObject p) \<Longrightarrow>
   i < length (steps p) \<Longrightarrow> \<not> has_result (steps p ! i) \<Longrightarrow> \<forall>j<i. has_result (steps p ! j) \<Longrightarrow>
   \<forall>j<3. \<forall>inp. \<exists>e. agent j inp = Inl e \<and> is_context_overflow lower e \<Longrightarrow>
   \<forall>inp. \<exists>e. agent 3 inp = Inl e \<Longrightarrow>
   execute_agent_step lower agent agent_name state
     = Inr (state\<lparr>current_plan :=
                 Some (PlanObject (p\<lparr>steps := (steps p)[i := (steps p ! i)
                    \<lparr>execution_res := Some (placeholder (steps p ! i))\<rparr>]\<rparr>))\<rparr>,
            \<lparr>goto = research_team,
             update_messages = Some [\<lparr>lc_class = HumanMessage, lc_content = placeholder (steps p ! i),
                                      lc_name = Some agent_name\<rparr>],
             update_current_plan = None, update_plan_iterations = None, update_locale = None,
             update_observations = Some (get_observations state @ [placeholder (steps p ! i)])\<rparr>)"
proof -
  assume a: "current_plan state = Some (PlanObject p)" "i < length (steps p)"
    "\<not> has_result (steps p ! i)" "\<forall>j<i. has_result (steps p ! j)"
    "\<forall>j<3. \<forall>inp. \<exists>e. agent j inp = Inl e \<and> is_context_overflow lower e"
    "\<forall>inp. \<exists>e. agent 3 inp = Inl e"
  have "invoke_with_retries lower agent (steps p ! i)
          (build_agent_input lower state agent_name (take i (steps p)) (steps p ! i)) 0
        = Inr [placeholder (steps p ! i)]"
    using a(5) a(6) build_agent_input_nonempty by (rule invoke_all_fail)
  from execute_agent_step_unfold[OF a(1) a(2) a(3) a(4) this] show ?thesis by simp
qed

theorem execute_agent_step_degrades_witness:
  "current_plan ex_run_state = Some (PlanObject ex_run_plan)
   \<and> Suc 0 < length (steps ex_run_plan) \<and> \<not> has_result (steps ex_run_plan ! Suc 0)
   \<and> has_result (steps ex_run_plan ! 0)
   \<and> (\<forall>inp. \<exists>e. ex_agent_overflow 0 inp = Inl e \<and> is_context_overflow ascii_lower e)
   \<and> (\<forall>inp. \<exists>e. ex_agent_overflow 1 inp = Inl e \<and> is_context_overflow ascii_lower e)
   \<and> (\<forall>inp. \<exists>e. ex_agent_overflow 2 inp = Inl e \<and> is_context_overflow ascii_lower e)
   \<and> (\<forall>inp. \<exists>e. ex_agent_overflow 3 inp = Inl e)
   \<and> execute_agent_step ascii_lower ex_agent_overflow (ustr ''coder'') ex_run_state
       = Inr (ex_state_after (placeholder ex_step_model), ex_command_after (placeholder ex_step_model))"
proof -
  have fail: "\<forall>j<3. \<forall>inp. \<exists>e. ex_agent_overflow j inp = Inl e \<and> is_context_overflow ascii_lower e"
    by (simp add: ex_agent_overflow_def ex_overflow)
  have final: "\<forall>inp. \<exists>e. ex_agent_overflow 3 inp = Inl e" by (simp add: ex_agent_overflow_def)
  from execute_agent_step_degrades[where lower = ascii_lower and agent = ex_agent_overflow
      and agent_name = "ustr ''coder''",
      OF ex_run_facts(1) ex_run_facts(2) ex_run_facts(3) ex_run_facts(4) fail final]
  show ?thesis
    using fail final by (simp add: ex_run_facts ex_state_after_eq ex_command_after_def)
qed


text \<open>
  Claim C4 as stated counts three overflow failures, the minimal-content attempt being
  the third.  An agent that overflows on its first three calls and answers the fourth
  has failed three times in a row, and the executor returns its answer, not the
  placeholder: the minimal-content attempt is the fourth call.
\<close>

theorem three_overflows_not_placeholder:
  "ex_agent_recovers 0 [] = Inl (ustr ''context_length_exceeded'')
   \<and> ex_agent_recovers 1 [] = Inl (ustr ''context_length_exceeded'')
   \<and> ex_agent_recovers 2 [] = Inl (ustr ''context_length_exceeded'')
   \<and> is_context_overflow ascii_lower (ustr ''context_length_exceeded'')
   \<and> execute_agent_step ascii_lower ex_agent_recovers (ustr ''coder'') ex_run_state
       = Inr (ex_state_after (ustr ''fitted''), ex_command_after (ustr ''fitted''))
   \<and> ustr ''fitted'' \<noteq> placeholder ex_step_model"
proof -
  have fail: "\<forall>j<3. \<forall>inp. \<exists>e. ex_agent_recovers j inp = Inl e \<and> is_context_overflow ascii_lower e"
    by (simp add: ex_agent_recovers_def ex_overflow)
  have ok: "\<forall>inp. ex_agent_recovers 3 inp = Inr [ustr ''fitted'']" by (simp add: ex_agent_recovers_def)
  have "invoke_with_retries ascii_lower ex_agent_recovers (steps ex_run_plan ! Suc 0)
          (build_agent_input ascii_lower ex_run_state (ustr ''coder'') (take (Suc 0) (steps ex_run_plan))
             (steps ex_run_plan ! Suc 0)) 0 = Inr [ustr ''fitted'']"
    using _ fail ok build_agent_input_nonempty by (rule invoke_after_overflows) simp
  from execute_agent_step_unfold[OF ex_run_facts(1) ex_run_facts(2) ex_run_facts(3) ex_run_facts(4) this]
  have run: "execute_agent_step ascii_lower ex_agent_recovers (ustr ''coder'') ex_run_state
       = Inr (ex_state_after (ustr ''fitted''), ex_command_after (ustr ''fitted''))"
    by (simp add: ex_run_facts ex_state_after_eq ex_command_after_def)
  have ne: "ustr ''fitted'' \<noteq> placeholder ex_step_model"
    by (simp add: placeholder_def ustr_def)
  show ?thesis using run ne by (simp add: ex_agent_recovers_def ex_overflow)
qed

text \<open>
  Claim C10.  The context assembled before truncation is the same when the state's
  messages are replaced by their last five and when the observations are replaced by
  their last three; it holds at most five parts made from state messages and at most
  one part made from observations.
\<close>

theorem context_parts_recent_only:
  "context_parts (state\<lparr>messages := ms\<rparr>) completed cur
     = context_parts (state\<lparr>messages := last_n 5 ms\<rparr>) completed cur
   \<and> context_parts (state\<lparr>observations := Some obs\<rparr>) completed cur
     = context_parts (state\<lparr>observations := Some (last_n 3 obs)\<rparr>) completed cur
   \<and> length (last_n 5 ms) \<le> 5 \<and> length (last_n 3 obs) \<le> 3
   \<and> length (filter (\<lambda>msg. type msg = Some (ustr ''state_message'')) (context_parts state completed cur)) \<le> 5
   \<and> length (filter (\<lambda>msg. type msg = Some (ustr ''observations'')) (context_parts state completed cur)) \<le> 1"
proof -
  have 1: "context_parts (state\<lparr>messages := ms\<rparr>) completed cur
     = context_parts (state\<lparr>messages := last_n 5 ms\<rparr>) completed cur"
    by (simp add: context_parts_def last_n_idem current_task_content_def get_observations_def)
  have 2: "context_parts (state\<lparr>observations := Some obs\<rparr>) completed cur
     = context_parts (state\<lparr>observations := Some (last_n 3 obs)\<rparr>) completed cur"
    by (simp add: context_parts_def observations_part_last_n current_task_content_def get_observations_def)
  have "length (filter (\<lambda>msg. type msg = Some (ustr ''state_message''))
           (concat (map state_message_part (last_n 5 (messages state)))))
        \<le> length (concat (map state_message_part (last_n 5 (messages state))))"
    by (rule length_filter_le)
  also have "\<dots> \<le> length (last_n 5 (messages state))" by (rule length_concat_state_message_part)
  also have "\<dots> \<le> 5" by (rule length_last_n)
  finally have 3: "length (filter (\<lambda>msg. type msg = Some (ustr ''state_message'')) (context_parts state completed cur)) \<le> 5"
    by (simp add: context_parts_def type_literals filter_observations_part)
  have "length (filter (\<lambda>msg. type msg = Some (ustr ''observations'')) (observations_part (get_observations state)))
        \<le> length (observations_part (get_observations state))"
    by (rule length_filter_le)
  also have "\<dots> \<le> 1" by (rule length_observations_part)
  finally have 4: "length (filter (\<lambda>msg. type msg = Some (ustr ''observations'')) (context_parts state completed cur)) \<le> 1"
    by (simp add: context_parts_def type_literals filter_state_message_part)
  show ?thesis using 1 2 3 4 by (simp add: length_last_n)
qed


end
